theory Spec2Isabelle
  imports Complex_Main
begin

section \<open>Python and NumPy primitives\<close>

text \<open>
  Floating-point numbers of the scripts are modelled as exact reals: rounding is not
  represented. Python integers are \<open>int\<close>, sizes and loop indices of \<open>range\<close> are
  \<open>nat\<close>.
\<close>

datatype py_error = ZeroDivisionError | ValueError | IndexError | NanResult

text \<open>\<open>int(x)\<close> on a float truncates towards zero.\<close>

definition py_int :: "real \<Rightarrow> int" where
  "py_int x = (if 0 \<le> x then \<lfloor>x\<rfloor> else \<lceil>x\<rceil>)"

text \<open>\<open>x % m\<close> on floats with a positive modulus \<open>m\<close>: the result has the sign of \<open>m\<close>.\<close>

definition py_fmod :: "real \<Rightarrow> real \<Rightarrow> real" where
  "py_fmod x m = x - m * of_int \<lfloor>x / m\<rfloor>"

text \<open>\<open>xs[a:b]\<close> for non-negative bounds.\<close>

definition slice :: "'a list \<Rightarrow> nat \<Rightarrow> nat \<Rightarrow> 'a list" where
  "slice xs a b = take (b - a) (drop a xs)"

section \<open>Playback clock (audioFile_matplotlib_visualiser.py, deepseekVisualise.py)\<close>

text \<open>
  The fields of \<open>FileVisualizer\<close> that the clock and the render tick read and write.
  \<open>audio_start_time\<close> and \<open>start_time\<close> are \<open>None\<close> until set.
\<close>

record player =
  is_playing :: bool
  audio_start_time :: "real option"
  start_time :: "real option"
  sync_adjustments :: int
  sr :: int
  hop_length :: int
  frame_count :: int

text \<open>
  The clock fields as \<open>__init__\<close> leaves them, for a file of the given sample rate
  and frame count.
\<close>

definition init_player :: "int \<Rightarrow> int \<Rightarrow> player" where
  "init_player rate frames =
     \<lparr>is_playing = False, audio_start_time = None, start_time = None,
      sync_adjustments = 0, sr = rate, hop_length = 256, frame_count = frames\<rparr>"

text \<open>
  \<open>play_audio\<close>: \<open>ok\<close> says whether the mixer loaded and started the file without raising;
  \<open>now\<close> is the reading of \<open>time.time()\<close>.
\<close>

definition play_audio :: "bool \<Rightarrow> real \<Rightarrow> player \<Rightarrow> player" where
  "play_audio ok now s =
     (if ok then s\<lparr>is_playing := True, audio_start_time := Some now\<rparr>
      else s\<lparr>is_playing := False\<rparr>)"

definition stop_audio :: "player \<Rightarrow> player" where
  "stop_audio s = s\<lparr>is_playing := False\<rparr>"

text \<open>
  \<open>get_audio_position\<close>: the test \<open>self.audio_start_time and self.is_playing\<close> is false
  for \<open>None\<close> and also for a start time of \<open>0.0\<close>.
\<close>

definition get_audio_position :: "real \<Rightarrow> player \<Rightarrow> real" where
  "get_audio_position now s =
     (case audio_start_time s of
        None \<Rightarrow> 0
      | Some t0 \<Rightarrow> if t0 \<noteq> 0 \<and> is_playing s then now - t0 else 0)"

definition get_current_frame_from_audio :: "real \<Rightarrow> player \<Rightarrow> int option" where
  "get_current_frame_from_audio now s =
     (if \<not> is_playing s then None
      else
        let audio_time = get_audio_position now s;
            expected_frame = py_int ((audio_time * of_int (sr s)) / of_int (hop_length s))
        in Some (min expected_frame (frame_count s - 1)))"

text \<open>
  The frame selection of \<open>animate\<close>: the result is the frame whose precomputed record is
  drawn, with the updated fields. \<open>current_time\<close> is the clock reading at entry, \<open>now\<close>
  the later reading inside \<open>play_audio\<close> or \<open>get_audio_position\<close>. The list
  \<open>precomputed_heights\<close> has \<open>frame_count\<close> entries.
\<close>

definition animate :: "bool \<Rightarrow> real \<Rightarrow> real \<Rightarrow> int \<Rightarrow> player \<Rightarrow> int \<times> player" where
  "animate ok current_time now frame s =
     (let (actual_frame, s') =
        (if frame = 0 \<and> \<not> is_playing s
         then (0, (play_audio ok now s)\<lparr>start_time := Some current_time\<rparr>)
         else
           (case get_current_frame_from_audio now s of
              None \<Rightarrow> (frame, s)
            | Some audio_frame \<Rightarrow>
                if \<bar>audio_frame - frame\<bar> > 2
                then (audio_frame, s\<lparr>sync_adjustments := sync_adjustments s + 1\<rparr>)
                else (frame, s)))
      in (min actual_frame (frame_count s - 1), s'))"

section \<open>Spectrogram normalisation\<close>

text \<open>
  The magnitude spectrogram is a matrix with one row per frequency bin and one entry per
  frame in each row, here a list of rows. \<open>np.max\<close> of a non-empty array:
\<close>

definition np_max :: "real list \<Rightarrow> real" where
  "np_max xs = Max (set xs)"

text \<open>\<open>np.log1p (np.abs stft)\<close>, entry by entry.\<close>

definition log1p_magnitude :: "complex list list \<Rightarrow> real list list" where
  "log1p_magnitude stft = map (map (\<lambda>z. ln (1 + cmod z))) stft"

text \<open>
  \<open>FileVisualizer.__init__\<close> (and alternativeVisualization.py): one pass over the
  frequency bins; a bin is divided by its own maximum over all frames when that maximum is
  positive. \<open>np.max\<close> raises \<open>ValueError\<close> on a row without entries.
\<close>

definition normalize_row :: "real list \<Rightarrow> real list" where
  "normalize_row freq_data =
     (if np_max freq_data > 0 then map (\<lambda>x. x / np_max freq_data) freq_data else freq_data)"

definition normalize_bins :: "real list list \<Rightarrow> py_error + real list list" where
  "normalize_bins magnitude =
     (if [] \<in> set magnitude then Inl ValueError else Inr (map normalize_row magnitude))"

text \<open>
  deepseekVisualise.py, \<open>self.magnitude /= np.max(self.magnitude)\<close>: one maximum over the
  whole matrix and no test for zero. Where that maximum is 0 (the magnitudes are not
  negative, so every entry is 0 then), NumPy raises nothing and fills the matrix with nan;
  the model reports this as \<open>NanResult\<close>.
\<close>

definition global_normalize :: "real list list \<Rightarrow> py_error + real list list" where
  "global_normalize magnitude =
     (if concat magnitude = [] then Inl ValueError
      else if np_max (concat magnitude) = 0 then Inl NanResult
      else Inr (map (map (\<lambda>x. x / np_max (concat magnitude))) magnitude))"

section \<open>Bar binning and smoothing\<close>

text \<open>\<open>magnitude[:, frame]\<close>: the entries of one frame, lowest frequency first.\<close>

definition column :: "real list list \<Rightarrow> nat \<Rightarrow> real list" where
  "column magnitude frame = map (\<lambda>row. row ! frame) magnitude"

text \<open>\<open>np.linspace(start, stop, num)\<close>, end point included.\<close>

definition linspace :: "real \<Rightarrow> real \<Rightarrow> nat \<Rightarrow> real list" where
  "linspace start stop num =
     (if num = 1 then [start]
      else map (\<lambda>k. start + real k * ((stop - start) / real (num - 1))) [0..<num])"

definition apply_weights :: "real list \<Rightarrow> real list" where
  "apply_weights freq_data =
     (let freq_weights = linspace 1 (3/10) (length freq_data)
      in map (\<lambda>(x, w). x * w) (zip freq_data freq_weights))"

text \<open>\<open>np.sqrt(np.mean(xs ** 2))\<close>.\<close>

definition rms :: "real list \<Rightarrow> real" where
  "rms xs = sqrt (sum_list (map (\<lambda>x. x\<^sup>2) xs) / real (length xs))"

text \<open>
  The index range of bar \<open>i\<close> in \<open>FileVisualizer.precompute_animation_data\<close>: the last bar
  runs to the end of the vector.
\<close>

definition bar_bounds :: "nat \<Rightarrow> nat \<Rightarrow> nat \<Rightarrow> nat \<times> nat" where
  "bar_bounds num_bars num_freq_bins i =
     (let bins_per_bar = num_freq_bins div num_bars;
          start_idx = i * bins_per_bar;
          end_idx = (if i = num_bars - 1 then num_freq_bins else (i + 1) * bins_per_bar)
      in (start_idx, min end_idx num_freq_bins))"

text \<open>
  The index range of bar \<open>i\<close> in \<open>CircularAudioVisualizer.precompute_circular_data\<close>
  (alternativeVisualization.py and deepseekVisualise.py, the same lines in both).
\<close>

definition circular_bar_bounds :: "nat \<Rightarrow> nat \<Rightarrow> nat \<Rightarrow> nat \<times> nat" where
  "circular_bar_bounds num_bars num_freq_bins i =
     (let bins_per_bar = num_freq_bins div num_bars;
          start_idx = i * bins_per_bar;
          end_idx = min ((i + 1) * bins_per_bar) num_freq_bins
      in (start_idx, end_idx))"

text \<open>The bars of one weighted frame, \<open>FileVisualizer\<close>: root mean square, floor \<open>1e-6\<close>.\<close>

definition file_bar_heights :: "nat \<Rightarrow> real list \<Rightarrow> real list" where
  "file_bar_heights num_bars freq_data =
     map (\<lambda>i. let (start_idx, end_idx) = bar_bounds num_bars (length freq_data) i
              in if end_idx > start_idx
                 then max (rms (slice freq_data start_idx end_idx)) (1 / 1000000)
                 else 1 / 1000000)
         [0..<num_bars]"

text \<open>The bars of one weighted frame, \<open>CircularAudioVisualizer\<close>: floor \<open>0.01\<close>.\<close>

definition circular_bar_heights :: "nat \<Rightarrow> real list \<Rightarrow> real list" where
  "circular_bar_heights num_bars freq_data =
     map (\<lambda>i. let (start_idx, end_idx) = circular_bar_bounds num_bars (length freq_data) i
              in if end_idx > start_idx
                 then max (rms (slice freq_data start_idx end_idx)) (1 / 100)
                 else 1 / 100)
         [0..<num_bars]"

text \<open>
  \<open>[smoothing_factor * prev + (1 - smoothing_factor) * curr
     for prev, curr in zip(prev_heights, bar_heights)]\<close>
\<close>

definition smooth :: "real \<Rightarrow> real list \<Rightarrow> real list \<Rightarrow> real list" where
  "smooth smoothing_factor prev_heights bar_heights =
     map (\<lambda>(prev, curr). smoothing_factor * prev + (1 - smoothing_factor) * curr)
         (zip prev_heights bar_heights)"

text \<open>
  The frame loop of \<open>FileVisualizer.precompute_animation_data\<close> over the columns still to
  come, with \<open>prev_heights\<close> threaded through; the result is what the loop appends to
  \<open>precomputed_heights\<close>, in order.
\<close>

fun animation_frames :: "nat \<Rightarrow> real list option \<Rightarrow> real list list \<Rightarrow> real list list" where
  "animation_frames num_bars prev_heights [] = []"
| "animation_frames num_bars prev_heights (col # cols) =
     (let freq_data = apply_weights col;
          raw_heights = file_bar_heights num_bars freq_data;
          bar_heights = (case prev_heights of
                           None \<Rightarrow> raw_heights
                         | Some prev \<Rightarrow> smooth (1 / 2) prev raw_heights)
      in bar_heights # animation_frames num_bars (Some bar_heights) cols)"

text \<open>
  \<open>num_freq_bins // self.num_bars\<close> raises in the first frame when \<open>num_bars\<close> is 0.
\<close>

definition precompute_animation_data ::
  "nat \<Rightarrow> nat \<Rightarrow> real list list \<Rightarrow> py_error + real list list" where
  "precompute_animation_data num_bars frame_cnt magnitude =
     (if num_bars = 0 \<and> 0 < frame_cnt then Inl ZeroDivisionError
      else Inr (animation_frames num_bars None (map (column magnitude) [0..<frame_cnt])))"

text \<open>
  The frame loop of \<open>precompute_circular_data\<close> in deepseekVisualise.py, which reads the
  smoothing factor from the attribute \<open>self.smoothing_factor\<close> (0.5 as constructed).
\<close>

fun circular_frames ::
  "real \<Rightarrow> nat \<Rightarrow> real list option \<Rightarrow> real list list \<Rightarrow> real list list" where
  "circular_frames smoothing_factor num_bars prev_heights [] = []"
| "circular_frames smoothing_factor num_bars prev_heights (col # cols) =
     (let freq_data = apply_weights col;
          raw_heights = circular_bar_heights num_bars freq_data;
          bar_heights = (case prev_heights of
                           None \<Rightarrow> raw_heights
                         | Some prev \<Rightarrow> smooth smoothing_factor prev raw_heights)
      in bar_heights # circular_frames smoothing_factor num_bars (Some bar_heights) cols)"

text \<open>
  \<open>precompute_circular_data\<close> of deepseekVisualise.py on a matrix of numbers:
  \<open>angle_step = 2 * math.pi / self.num_bars\<close> raises before the loop when \<open>num_bars\<close>
  is 0.
\<close>

definition precompute_circular_data ::
  "real \<Rightarrow> nat \<Rightarrow> nat \<Rightarrow> real list list \<Rightarrow> py_error + real list list" where
  "precompute_circular_data smoothing_factor num_bars frame_cnt magnitude =
     (if num_bars = 0 then Inl ZeroDivisionError
      else Inr (circular_frames smoothing_factor num_bars None
                  (map (column magnitude) [0..<frame_cnt])))"

text \<open>
  \<open>CircularAudioVisualizer.__init__\<close> of deepseekVisualise.py from the transform to the
  stored heights: compression, global normalisation, \<open>frame_count = magnitude.shape[1]\<close>,
  then the frame loop. On a transform that is zero everywhere the normalisation leaves a
  matrix of nan, which the loop takes as it is: every height computed from at least one
  bin is nan (\<open>max(nan, 0.01)\<close> is nan). The model gives this outcome as \<open>NanResult\<close>.
\<close>

definition circular_visualizer_heights ::
  "real \<Rightarrow> nat \<Rightarrow> complex list list \<Rightarrow> py_error + real list list" where
  "circular_visualizer_heights smoothing_factor num_bars stft =
     (case global_normalize (log1p_magnitude stft) of
        Inl e \<Rightarrow> Inl e
      | Inr magnitude \<Rightarrow>
          precompute_circular_data smoothing_factor num_bars (length (hd magnitude)) magnitude)"

section \<open>Colour animation (audioFile_matplotlib_visualiser.py)\<close>

text \<open>\<open>xs[i]\<close> for a Python integer: a negative index counts from the end.\<close>

definition py_index :: "'a list \<Rightarrow> int \<Rightarrow> py_error + 'a" where
  "py_index xs i =
     (let j = (if i < 0 then i + int (length xs) else i)
      in if 0 \<le> j \<and> j < int (length xs) then Inr (xs ! nat j) else Inl IndexError)"

text \<open>The results of a loop body, in order, up to the first one that raises.\<close>

fun collect :: "('e + 'a) list \<Rightarrow> 'e + 'a list" where
  "collect [] = Inr []"
| "collect (r # rs) =
     (case r of
        Inl e \<Rightarrow> Inl e
      | Inr v \<Rightarrow> (case collect rs of Inl e \<Rightarrow> Inl e | Inr vs \<Rightarrow> Inr (v # vs)))"

definition vibgyor_colors :: "string list" where
  "vibgyor_colors =
     [''#8B00FF'', ''#4B0082'', ''#0000FF'', ''#00FF00'', ''#FFFF00'', ''#FF7F00'', ''#FF0000'']"

text \<open>
  The value of a hexadecimal digit and \<open>int(s, 16)\<close> on a string of such digits (the only
  strings parsed are the palette literals).
\<close>

definition hex_digit_value :: "char \<Rightarrow> int" where
  "hex_digit_value c =
     (let n = int (of_char c)
      in if 48 \<le> n \<and> n \<le> 57 then n - 48 else if 97 \<le> n \<and> n \<le> 102 then n - 87 else n - 55)"

definition int16 :: "string \<Rightarrow> int" where
  "int16 s = fold (\<lambda>c acc. 16 * acc + hex_digit_value c) s 0"

definition hex_to_rgb :: "string \<Rightarrow> int \<times> int \<times> int" where
  "hex_to_rgb hex_color =
     (let h = dropWhile (\<lambda>c. c = CHR ''#'') hex_color
      in (int16 (slice h 0 2), int16 (slice h 2 4), int16 (slice h 4 6)))"

text \<open>\<open>'{:02x}'.format(n)\<close>: lower-case hexadecimal, padded with zeros to two characters.\<close>

fun hex_digits :: "nat \<Rightarrow> string" where
  "hex_digits n =
     (if n < 16 then [''0123456789abcdef'' ! n]
      else hex_digits (n div 16) @ [''0123456789abcdef'' ! (n mod 16)])"

definition format_02x :: "int \<Rightarrow> string" where
  "format_02x n =
     (if n < 0 then CHR ''-'' # hex_digits (nat (- n))
      else replicate (2 - length (hex_digits (nat n))) CHR ''0'' @ hex_digits (nat n))"

definition rgb_to_hex :: "real \<times> real \<times> real \<Rightarrow> string" where
  "rgb_to_hex rgb =
     (case rgb of (r, g, b) \<Rightarrow>
        ''#'' @ format_02x (py_int r) @ format_02x (py_int g) @ format_02x (py_int b))"

definition interpolate_color :: "string \<Rightarrow> string \<Rightarrow> real \<Rightarrow> string" where
  "interpolate_color color1 color2 factor =
     (case (hex_to_rgb color1, hex_to_rgb color2) of
        ((r1, g1, b1), (r2, g2, b2)) \<Rightarrow>
          rgb_to_hex (of_int r1 + factor * (of_int r2 - of_int r1),
                      of_int g1 + factor * (of_int g2 - of_int g1),
                      of_int b1 + factor * (of_int b2 - of_int b1)))"

text \<open>
  \<open>precompute_colors\<close>: the dictionary \<open>color_cache\<close>, one list of \<open>steps = 50\<close>
  interpolated colours for each palette index.
\<close>

definition steps :: nat where
  "steps = 50"

definition color_cache :: "int \<rightharpoonup> string list" where
  "color_cache i =
     (if 0 \<le> i \<and> i < int (length vibgyor_colors)
      then
        let next_i = (i + 1) mod int (length vibgyor_colors);
            color1 = vibgyor_colors ! nat i;
            color2 = vibgyor_colors ! nat next_i
        in Some (map (\<lambda>step. interpolate_color color1 color2 (real step / real steps))
                     [0..<steps])
      else None)"

text \<open>The lines of the loop body of \<open>get_vibgyor_colors\<close> for bar \<open>i\<close>.\<close>

definition bars_per_color :: "nat \<Rightarrow> real" where
  "bars_per_color num_bars = real num_bars / real (length vibgyor_colors)"

definition frame_offset :: "int \<Rightarrow> real" where
  "frame_offset frame = py_fmod (of_int frame * (2 / 1000)) (real (length vibgyor_colors))"

definition color_position :: "nat \<Rightarrow> int \<Rightarrow> nat \<Rightarrow> real" where
  "color_position num_bars frame i =
     (real i + frame_offset frame * bars_per_color num_bars) / bars_per_color num_bars"

definition color_idx :: "nat \<Rightarrow> int \<Rightarrow> nat \<Rightarrow> int" where
  "color_idx num_bars frame i =
     py_int (color_position num_bars frame i) mod int (length vibgyor_colors)"

definition interpolation_factor :: "nat \<Rightarrow> int \<Rightarrow> nat \<Rightarrow> real" where
  "interpolation_factor num_bars frame i =
     color_position num_bars frame i - of_int (py_int (color_position num_bars frame i))"

definition step_idx :: "nat \<Rightarrow> int \<Rightarrow> nat \<Rightarrow> string list \<Rightarrow> int" where
  "step_idx num_bars frame i cached =
     py_int (interpolation_factor num_bars frame i * (real (length cached) - 1))"

definition bar_color :: "nat \<Rightarrow> int \<Rightarrow> nat \<Rightarrow> py_error + string" where
  "bar_color num_bars frame i =
     (case color_cache (color_idx num_bars frame i) of
        Some cached \<Rightarrow> py_index cached (step_idx num_bars frame i cached)
      | None \<Rightarrow> py_index vibgyor_colors (color_idx num_bars frame i))"

definition get_vibgyor_colors :: "nat \<Rightarrow> int \<Rightarrow> py_error + string list" where
  "get_vibgyor_colors num_bars frame = collect (map (bar_color num_bars frame) [0..<num_bars])"

section \<open>Playback clock: properties\<close>

lemma py_int_nonneg: "0 \<le> x \<Longrightarrow> py_int x = \<lfloor>x\<rfloor>"
  by (simp add: py_int_def)

text \<open>
  Claim C2. While playing (playback was started at a wall-clock reading \<open>t0\<close> other
  than \<open>0.0\<close> and the query comes at \<open>now \<ge> t0\<close>), the elapsed time is \<open>now - t0\<close> and the expected
  frame is \<open>min (floor (elapsed * sr / hop_length)) (frame_count - 1)\<close>. Whenever the
  clock is stopped, whatever the other fields hold (before \<open>play_audio\<close>, after a failed
  \<open>play_audio\<close>, after \<open>stop_audio\<close>), the elapsed time is 0 and the expected frame is absent.
\<close>

theorem playback_clock:
  "(is_playing s \<and> audio_start_time s = Some t0 \<and> t0 \<noteq> 0 \<and> t0 \<le> now
      \<and> 0 < sr s \<and> 0 < hop_length s
    \<longrightarrow> get_audio_position now s = now - t0
        \<and> get_current_frame_from_audio now s =
            Some (min \<lfloor>(now - t0) * of_int (sr s) / of_int (hop_length s)\<rfloor> (frame_count s - 1)))
   \<and> (\<not> is_playing s
    \<longrightarrow> get_audio_position now s = 0 \<and> get_current_frame_from_audio now s = None)
   \<and> get_audio_position now (init_player rate frames) = 0
   \<and> get_current_frame_from_audio now (init_player rate frames) = None
   \<and> get_audio_position now (stop_audio s) = 0
   \<and> get_current_frame_from_audio now (stop_audio s) = None"
proof -
  have playing: "get_audio_position now s = now - t0
        \<and> get_current_frame_from_audio now s =
            Some (min \<lfloor>(now - t0) * of_int (sr s) / of_int (hop_length s)\<rfloor> (frame_count s - 1))"
    if h: "is_playing s" "audio_start_time s = Some t0" "t0 \<noteq> 0" "t0 \<le> now"
          "0 < sr s" "0 < hop_length s"
  proof -
    have pos: "get_audio_position now s = now - t0"
      using h by (simp add: get_audio_position_def)
    have "0 \<le> (now - t0) * of_int (sr s) / of_int (hop_length s)"
      using h by simp
    then have "py_int ((now - t0) * of_int (sr s) / of_int (hop_length s))
                 = \<lfloor>(now - t0) * of_int (sr s) / of_int (hop_length s)\<rfloor>"
      by (rule py_int_nonneg)
    then show ?thesis
      using h pos by (simp add: get_current_frame_from_audio_def)
  qed
  have stopped: "get_audio_position now' s' = 0 \<and> get_current_frame_from_audio now' s' = None"
    if "\<not> is_playing s'" for now' s'
    using that
    by (simp add: get_audio_position_def get_current_frame_from_audio_def split: option.splits)
  have "\<not> is_playing (init_player rate frames)" "\<not> is_playing (stop_audio s)"
    by (simp_all add: init_player_def stop_audio_def)
  with playing stopped show ?thesis by blast
qed

text \<open>
  Started at wall-clock time 1000 and queried one second later at 22050 Hz, the expected
  frame is 86; after \<open>stop_audio\<close> the clock reads 0 and gives no frame.
\<close>

theorem playback_clock_witness:
  "get_audio_position 1001 (play_audio True 1000 (init_player 22050 5000)) = 1
   \<and> get_current_frame_from_audio 1001 (play_audio True 1000 (init_player 22050 5000)) = Some 86
   \<and> get_audio_position 1001 (stop_audio (play_audio True 1000 (init_player 22050 5000))) = 0
   \<and> get_current_frame_from_audio 1001 (stop_audio (play_audio True 1000 (init_player 22050 5000)))
       = None"
proof -
  let ?s = "play_audio True 1000 (init_player 22050 5000)"
  have h: "is_playing ?s \<and> audio_start_time ?s = Some 1000 \<and> (1000::real) \<noteq> 0
             \<and> (1000::real) \<le> 1001 \<and> 0 < sr ?s \<and> 0 < hop_length ?s"
    by (simp add: play_audio_def init_player_def)
  have fl: "\<lfloor>(1001 - 1000) * real_of_int (sr ?s) / real_of_int (hop_length ?s)\<rfloor> = 86"
    by (simp add: play_audio_def init_player_def floor_eq_iff)
  have fc: "frame_count ?s = 5000"
    by (simp add: play_audio_def init_player_def)
  show ?thesis
    using playback_clock [of ?s 1000 1001 22050 5000] h fl fc by simp
qed

text \<open>
  Claim C3. At a render tick for frame \<open>0 \<le> frame < frame_count\<close> at which the clock
  gives an expected frame \<open>e\<close>: when \<open>e\<close> and \<open>frame\<close> differ by more than 2, frame \<open>e\<close>
  is displayed and \<open>sync_adjustments\<close> grows by exactly one; otherwise \<open>frame\<close> itself is
  displayed and the state is unchanged.
\<close>

theorem drift_correction:
  assumes "get_current_frame_from_audio now s = Some e"
    and "0 \<le> frame" and "frame < frame_count s"
  shows "animate ok current_time now frame s =
           (if \<bar>e - frame\<bar> > 2
            then (e, s\<lparr>sync_adjustments := sync_adjustments s + 1\<rparr>)
            else (frame, s))"
proof -
  from assms(1) have playing: "is_playing s"
    by (auto simp: get_current_frame_from_audio_def split: if_splits)
  from assms(1) have "e \<le> frame_count s - 1"
    by (auto simp: get_current_frame_from_audio_def Let_def split: if_splits)
  then have clip_e: "min e (frame_count s - 1) = e" by simp
  from assms(3) have clip_f: "min frame (frame_count s - 1) = frame" by simp
  show ?thesis
    using playing assms(1) clip_e clip_f by (simp add: animate_def)
qed

text \<open>
  The nominal counter runs 5 frames ahead of the audio: playback started at time 1000,
  the tick for frame 91 comes one second later, when the audio is at frame 86.
\<close>

theorem drift_correction_witness:
  "animate True 1001 1001 91 (play_audio True 1000 (init_player 22050 5000)) =
     (86, (play_audio True 1000 (init_player 22050 5000))\<lparr>sync_adjustments := 1\<rparr>)
   \<and> animate True 1001 1001 87 (play_audio True 1000 (init_player 22050 5000)) =
     (87, play_audio True 1000 (init_player 22050 5000))"
proof -
  let ?s = "play_audio True 1000 (init_player 22050 5000)"
  have fl: "py_int (22050 / 256) = 86"
    by (simp add: py_int_def floor_eq_iff)
  have e: "get_current_frame_from_audio 1001 ?s = Some 86"
    using fl
    by (simp add: get_current_frame_from_audio_def get_audio_position_def play_audio_def
        init_player_def)
  have fc: "frame_count ?s = 5000" "sync_adjustments ?s = 0"
    by (simp_all add: play_audio_def init_player_def)
  show ?thesis
    using drift_correction [OF e, of 91 True 1001] drift_correction [OF e, of 87 True 1001] fc
    by simp
qed

section \<open>Bar binning: coverage of the frequency bins\<close>

lemma concat_slices_take:
  "concat (map (\<lambda>i. slice xs (i * b) ((i + 1) * b)) [0..<m]) = take (m * b) xs"
proof (induction m)
  case 0
  show ?case by simp
next
  case (Suc m)
  have step: "slice xs (m * b) ((m + 1) * b) = take b (drop (m * b) xs)"
    by (simp add: slice_def)
  have "take (Suc m * b) xs = take (m * b + b) xs"
    by (simp add: add.commute)
  also have "\<dots> = take (m * b) xs @ take b (drop (m * b) xs)"
    by (rule take_add)
  finally have "take (Suc m * b) xs = take (m * b) xs @ slice xs (m * b) ((m + 1) * b)"
    using step by simp
  moreover have "concat (map (\<lambda>i. slice xs (i * b) ((i + 1) * b)) [0..<Suc m])
      = concat (map (\<lambda>i. slice xs (i * b) ((i + 1) * b)) [0..<m]) @ slice xs (m * b) ((m + 1) * b)"
    by simp
  ultimately show ?case using Suc by simp
qed

lemma div_mult_le_bins: "m \<le> nb \<Longrightarrow> m * (n div nb) \<le> (n::nat)"
proof -
  assume "m \<le> nb"
  then have "m * (n div nb) \<le> nb * (n div nb)" by simp
  also have "\<dots> \<le> n" by simp
  finally show ?thesis .
qed

lemma bar_bounds_inner:
  "Suc i < nb \<Longrightarrow> bar_bounds nb n i = (i * (n div nb), (i + 1) * (n div nb))"
  using div_mult_le_bins [of "Suc i" nb n] by (auto simp: bar_bounds_def Let_def)

lemma bar_bounds_last:
  "1 \<le> nb \<Longrightarrow> bar_bounds nb n (nb - 1) = ((nb - 1) * (n div nb), n)"
  by (simp add: bar_bounds_def Let_def)

lemma circular_bar_bounds_eq:
  "i < nb \<Longrightarrow> circular_bar_bounds nb n i = (i * (n div nb), (i + 1) * (n div nb))"
  using div_mult_le_bins [of "Suc i" nb n] by (auto simp: circular_bar_bounds_def Let_def)

lemma file_concat:
  assumes "1 \<le> nb"
  shows "concat (map (\<lambda>i. slice fd (fst (bar_bounds nb (length fd) i))
                            (snd (bar_bounds nb (length fd) i))) [0..<nb]) = fd"
proof -
  let ?n = "length fd" let ?b = "length fd div nb"
  let ?f = "\<lambda>i. slice fd (fst (bar_bounds nb ?n i)) (snd (bar_bounds nb ?n i))"
  let ?g = "\<lambda>i. slice fd (i * ?b) ((i + 1) * ?b)"
  obtain m where nb: "nb = Suc m" using assms by (cases nb) auto
  have "\<And>i. i \<in> set [0..<m] \<Longrightarrow> ?f i = ?g i"
    by (simp add: bar_bounds_inner nb)
  then have inner: "map ?f [0..<m] = map ?g [0..<m]"
    by (rule map_cong [OF refl])
  have "bar_bounds nb ?n m = (m * ?b, ?n)"
    using bar_bounds_last [of nb ?n] by (simp add: nb)
  then have last: "?f m = drop (m * ?b) fd"
    by (simp add: slice_def)
  have "concat (map ?f [0..<nb]) = concat (map ?f [0..<m]) @ ?f m"
    by (simp add: nb)
  also have "\<dots> = concat (map ?g [0..<m]) @ drop (m * ?b) fd"
    by (simp only: inner last)
  also have "\<dots> = take (m * ?b) fd @ drop (m * ?b) fd"
    by (simp only: concat_slices_take)
  finally show ?thesis by simp
qed

lemma circular_concat:
  "concat (map (\<lambda>i. slice fd (fst (circular_bar_bounds nb (length fd) i))
                            (snd (circular_bar_bounds nb (length fd) i))) [0..<nb])
     = take (nb * (length fd div nb)) fd"
proof -
  let ?n = "length fd" let ?b = "length fd div nb"
  let ?f = "\<lambda>i. slice fd (fst (circular_bar_bounds nb ?n i)) (snd (circular_bar_bounds nb ?n i))"
  let ?g = "\<lambda>i. slice fd (i * ?b) ((i + 1) * ?b)"
  have "\<And>i. i \<in> set [0..<nb] \<Longrightarrow> ?f i = ?g i"
    by (simp add: circular_bar_bounds_eq)
  then have "map ?f [0..<nb] = map ?g [0..<nb]"
    by (rule map_cong [OF refl])
  then show ?thesis
    by (simp only: concat_slices_take)
qed

lemma block_unique:
  assumes "(0::nat) < b" "i * b \<le> k" "k < (i + 1) * b"
  shows "i = k div b"
proof -
  have "i \<le> k div b"
    using assms(1,2) by (simp add: less_eq_div_iff_mult_less_eq)
  moreover have "k div b < i + 1"
    using assms(1,3) by (simp add: div_less_iff_less_mult)
  ultimately show ?thesis by simp
qed

lemma block_contains:
  assumes "(0::nat) < b"
  shows "(k div b) * b \<le> k \<and> k < (k div b + 1) * b"
proof -
  have "k = (k div b) * b + k mod b" by simp
  moreover have "k mod b < b" using assms by simp
  ultimately show ?thesis
    by (metis add.commute add_less_cancel_left le_add1 mult.commute mult_Suc_right Suc_eq_plus1)
qed

lemma file_cover:
  assumes "i < nb"
  shows "(fst (bar_bounds nb n i) \<le> k \<and> k < snd (bar_bounds nb n i))
         \<longleftrightarrow> (k < n \<and> i = (if n div nb = 0 then nb - 1 else min (k div (n div nb)) (nb - 1)))"
proof (cases "Suc i < nb")
  case True
  let ?b = "n div nb"
  have bounds: "bar_bounds nb n i = (i * ?b, (i + 1) * ?b)"
    using True by (rule bar_bounds_inner)
  have top: "(i + 1) * ?b \<le> n"
    using True div_mult_le_bins [of "i + 1" nb n] by simp
  show ?thesis
  proof
    assume "fst (bar_bounds nb n i) \<le> k \<and> k < snd (bar_bounds nb n i)"
    then have r: "i * ?b \<le> k" "k < (i + 1) * ?b" by (simp_all add: bounds)
    then have b: "0 < ?b" by (cases "?b = 0") auto
    have "i = k div ?b" using b r by (rule block_unique)
    then show "k < n \<and> i = (if ?b = 0 then nb - 1 else min (k div ?b) (nb - 1))"
      using b r top True by auto
  next
    assume h: "k < n \<and> i = (if ?b = 0 then nb - 1 else min (k div ?b) (nb - 1))"
    then have b: "0 < ?b" using True by (cases "?b = 0") auto
    with h True have "i = k div ?b" by (auto simp: min_def split: if_splits)
    then have "i * ?b \<le> k \<and> k < (i + 1) * ?b"
      using block_contains [OF b, of k] by simp
    then show "fst (bar_bounds nb n i) \<le> k \<and> k < snd (bar_bounds nb n i)"
      unfolding bounds fst_conv snd_conv .
  qed
next
  case False
  let ?b = "n div nb"
  from False assms have i: "i = nb - 1" "1 \<le> nb" by auto
  have bounds: "bar_bounds nb n (nb - 1) = ((nb - 1) * ?b, n)"
    using i(2) by (rule bar_bounds_last)
  show ?thesis
    unfolding i(1) bounds fst_conv snd_conv
  proof (cases "?b = 0")
    case True
    then show "((nb - 1) * ?b \<le> k \<and> k < n) =
       (k < n \<and> nb - 1 = (if ?b = 0 then nb - 1 else min (k div ?b) (nb - 1)))"
      by simp
  next
    case b: False
    then have "(nb - 1) * ?b \<le> k \<longleftrightarrow> nb - 1 \<le> k div ?b"
      by (simp add: less_eq_div_iff_mult_less_eq)
    then show "((nb - 1) * ?b \<le> k \<and> k < n) =
       (k < n \<and> nb - 1 = (if ?b = 0 then nb - 1 else min (k div ?b) (nb - 1)))"
      using b by (auto simp add: min_def)
  qed
qed

lemma file_cover_unique:
  assumes "1 \<le> nb" "k < n"
  shows "\<exists>!i. i < nb \<and> fst (bar_bounds nb n i) \<le> k \<and> k < snd (bar_bounds nb n i)"
proof -
  let ?c = "if n div nb = 0 then nb - 1 else min (k div (n div nb)) (nb - 1)"
  have c: "?c < nb" using assms(1) by (auto simp: min_def)
  show ?thesis
  proof (rule ex1I [of _ ?c])
    show "?c < nb \<and> fst (bar_bounds nb n ?c) \<le> k \<and> k < snd (bar_bounds nb n ?c)"
      using file_cover [OF c, of n k] c assms(2) by blast
  next
    fix i assume "i < nb \<and> fst (bar_bounds nb n i) \<le> k \<and> k < snd (bar_bounds nb n i)"
    then show "i = ?c" using file_cover [of i nb n k] by blast
  qed
qed

lemma circular_cover:
  assumes "i < nb"
  shows "(fst (circular_bar_bounds nb n i) \<le> k \<and> k < snd (circular_bar_bounds nb n i))
         \<longleftrightarrow> (0 < n div nb \<and> i = k div (n div nb))"
proof -
  let ?b = "n div nb"
  have bounds: "circular_bar_bounds nb n i = (i * ?b, (i + 1) * ?b)"
    using assms by (rule circular_bar_bounds_eq)
  show ?thesis
  proof
    assume "fst (circular_bar_bounds nb n i) \<le> k \<and> k < snd (circular_bar_bounds nb n i)"
    then have r: "i * ?b \<le> k" "k < (i + 1) * ?b" by (simp_all add: bounds)
    then have b: "0 < ?b" by (cases "?b = 0") auto
    have "i = k div ?b" using b r by (rule block_unique)
    with b show "0 < ?b \<and> i = k div ?b" by simp
  next
    assume h: "0 < ?b \<and> i = k div ?b"
    then have "i * ?b \<le> k \<and> k < (i + 1) * ?b"
      using block_contains [of ?b k] by simp
    then show "fst (circular_bar_bounds nb n i) \<le> k \<and> k < snd (circular_bar_bounds nb n i)"
      unfolding bounds fst_conv snd_conv .
  qed
qed

lemma circular_cover_iff:
  "(\<exists>i<nb. fst (circular_bar_bounds nb n i) \<le> k \<and> k < snd (circular_bar_bounds nb n i))
     \<longleftrightarrow> k < nb * (n div nb)"
proof -
  let ?b = "n div nb"
  have "(\<exists>i<nb. fst (circular_bar_bounds nb n i) \<le> k \<and> k < snd (circular_bar_bounds nb n i))
        \<longleftrightarrow> (\<exists>i<nb. 0 < ?b \<and> i = k div ?b)"
    using circular_cover [of _ nb n k] by blast
  also have "\<dots> \<longleftrightarrow> (0 < ?b \<and> k div ?b < nb)" by blast
  also have "\<dots> \<longleftrightarrow> k < nb * ?b"
    by (cases "?b = 0") (simp_all add: div_less_iff_less_mult)
  finally show ?thesis .
qed

lemma circular_cover_unique:
  assumes "k < nb * (n div nb)"
  shows "\<exists>!i. i < nb \<and> fst (circular_bar_bounds nb n i) \<le> k \<and> k < snd (circular_bar_bounds nb n i)"
proof -
  from assms obtain i where i: "i < nb"
      "fst (circular_bar_bounds nb n i) \<le> k \<and> k < snd (circular_bar_bounds nb n i)"
    using circular_cover_iff [of nb n k] by blast
  show ?thesis
  proof (rule ex1I [of _ i])
    show "i < nb \<and> fst (circular_bar_bounds nb n i) \<le> k \<and> k < snd (circular_bar_bounds nb n i)"
      using i by simp
  next
    fix j assume "j < nb \<and> fst (circular_bar_bounds nb n j) \<le> k \<and> k < snd (circular_bar_bounds nb n j)"
    then show "j = i" using i circular_cover [of j nb n k] circular_cover [of i nb n k] by simp
  qed
qed

text \<open>
  Claim C1, as amended. With \<open>num_bars \<ge> 1\<close> and \<open>bins_per_bar = num_freq_bins div num_bars\<close>:
  in \<open>FileVisualizer.precompute_animation_data\<close> bar \<open>i\<close> takes the bins from
  \<open>i * bins_per_bar\<close> up to \<open>(i + 1) * bins_per_bar\<close>, the last bar up to the end; the
  groups in order make up the whole vector, and every bin lies in exactly one bar. In
  \<open>CircularAudioVisualizer.precompute_circular_data\<close> every bar, the last one too, takes
  \<open>bins_per_bar\<close> bins: the groups make up the first \<open>num_bars * bins_per_bar\<close> bins, each
  of these lies in exactly one bar, and the bins from there on lie in no bar.
\<close>

theorem bin_coverage:
  assumes "1 \<le> num_bars"
  shows "(\<forall>i<num_bars. bar_bounds num_bars (length fd) i =
            (i * (length fd div num_bars),
             if i = num_bars - 1 then length fd else (i + 1) * (length fd div num_bars)))
       \<and> concat (map (\<lambda>i. slice fd (fst (bar_bounds num_bars (length fd) i))
                                  (snd (bar_bounds num_bars (length fd) i))) [0..<num_bars]) = fd
       \<and> (\<forall>k<length fd. \<exists>!i. i < num_bars \<and> fst (bar_bounds num_bars (length fd) i) \<le> k
                                 \<and> k < snd (bar_bounds num_bars (length fd) i))
       \<and> (\<forall>i<num_bars. circular_bar_bounds num_bars (length fd) i =
            (i * (length fd div num_bars), (i + 1) * (length fd div num_bars)))
       \<and> concat (map (\<lambda>i. slice fd (fst (circular_bar_bounds num_bars (length fd) i))
                                  (snd (circular_bar_bounds num_bars (length fd) i))) [0..<num_bars])
           = take (num_bars * (length fd div num_bars)) fd
       \<and> (\<forall>k<num_bars * (length fd div num_bars).
             \<exists>!i. i < num_bars \<and> fst (circular_bar_bounds num_bars (length fd) i) \<le> k
                               \<and> k < snd (circular_bar_bounds num_bars (length fd) i))
       \<and> (\<forall>k\<ge>num_bars * (length fd div num_bars).
             \<not> (\<exists>i<num_bars. fst (circular_bar_bounds num_bars (length fd) i) \<le> k
                               \<and> k < snd (circular_bar_bounds num_bars (length fd) i)))"
proof -
  have shape: "bar_bounds num_bars (length fd) i =
            (i * (length fd div num_bars),
             if i = num_bars - 1 then length fd else (i + 1) * (length fd div num_bars))"
    if "i < num_bars" for i
  proof (cases "Suc i < num_bars")
    case True
    then have "i \<noteq> num_bars - 1" by simp
    with True show ?thesis by (simp add: bar_bounds_inner)
  next
    case False
    with that have "i = num_bars - 1" by simp
    then show ?thesis using bar_bounds_last [OF assms, of "length fd"] by simp
  qed
  have outside: "\<not> (\<exists>i<num_bars. fst (circular_bar_bounds num_bars (length fd) i) \<le> k
                               \<and> k < snd (circular_bar_bounds num_bars (length fd) i))"
    if "num_bars * (length fd div num_bars) \<le> k" for k
    using that circular_cover_iff [of num_bars "length fd" k] by simp
  show ?thesis
    using shape file_concat [OF assms, of fd] file_cover_unique [OF assms, of _ "length fd"]
      circular_bar_bounds_eq [of _ num_bars "length fd"] circular_concat [of fd num_bars]
      circular_cover_unique [of _ num_bars "length fd"] outside
    by (intro conjI allI impI)
qed

text \<open>Seven bins in three bars: two bins each, and the seventh goes to the last bar or is not used.\<close>

theorem bin_coverage_witness:
  "bar_bounds 3 7 0 = (0, 2) \<and> bar_bounds 3 7 1 = (2, 4) \<and> bar_bounds 3 7 2 = (4, 7)
   \<and> concat (map (\<lambda>i. slice [10, 11, 12, 13, 14, 15, 16 :: real]
                          (fst (bar_bounds 3 7 i)) (snd (bar_bounds 3 7 i))) [0..<3])
       = [10, 11, 12, 13, 14, 15, 16]
   \<and> (\<exists>!i. i < 3 \<and> fst (bar_bounds 3 7 i) \<le> 6 \<and> 6 < snd (bar_bounds 3 7 i))
   \<and> circular_bar_bounds 3 7 2 = (4, 6)
   \<and> concat (map (\<lambda>i. slice [10, 11, 12, 13, 14, 15, 16 :: real]
                          (fst (circular_bar_bounds 3 7 i)) (snd (circular_bar_bounds 3 7 i))) [0..<3])
       = [10, 11, 12, 13, 14, 15]
   \<and> \<not> (\<exists>i<3. fst (circular_bar_bounds 3 7 i) \<le> 6 \<and> 6 < snd (circular_bar_bounds 3 7 i))"
proof -
  have h: "1 \<le> (3::nat)" by simp
  have d: "(7::nat) div 3 = 2" by simp
  note w = bin_coverage [OF h, of "[10, 11, 12, 13, 14, 15, 16 :: real]"]
  have len: "length [10, 11, 12, 13, 14, 15, 16 :: real] = 7" by simp
  from w have "\<forall>i<3. bar_bounds 3 7 i = (i * 2, if i = 3 - 1 then 7 else (i + 1) * 2)"
    unfolding len d by blast
  then have a: "bar_bounds 3 7 0 = (0, 2) \<and> bar_bounds 3 7 1 = (2, 4) \<and> bar_bounds 3 7 2 = (4, 7)"
    by simp
  from w have b: "concat (map (\<lambda>i. slice [10, 11, 12, 13, 14, 15, 16 :: real]
                          (fst (bar_bounds 3 7 i)) (snd (bar_bounds 3 7 i))) [0..<3])
       = [10, 11, 12, 13, 14, 15, 16]"
    unfolding len by blast
  from w have "\<forall>k<7. \<exists>!i. i < 3 \<and> fst (bar_bounds 3 7 i) \<le> k \<and> k < snd (bar_bounds 3 7 i)"
    unfolding len by blast
  then have c: "\<exists>!i. i < 3 \<and> fst (bar_bounds 3 7 i) \<le> 6 \<and> 6 < snd (bar_bounds 3 7 i)"
    by simp
  from w have "\<forall>i<3. circular_bar_bounds 3 7 i = (i * 2, (i + 1) * 2)"
    unfolding len d by blast
  then have e: "circular_bar_bounds 3 7 2 = (4, 6)" by simp
  from w have f: "concat (map (\<lambda>i. slice [10, 11, 12, 13, 14, 15, 16 :: real]
                          (fst (circular_bar_bounds 3 7 i)) (snd (circular_bar_bounds 3 7 i))) [0..<3])
       = [10, 11, 12, 13, 14, 15]"
    unfolding len d by simp
  from w have "\<forall>k\<ge>3 * 2. \<not> (\<exists>i<3. fst (circular_bar_bounds 3 7 i) \<le> k \<and> k < snd (circular_bar_bounds 3 7 i))"
    unfolding len d by blast
  then have g: "\<not> (\<exists>i<3. fst (circular_bar_bounds 3 7 i) \<le> 6 \<and> 6 < snd (circular_bar_bounds 3 7 i))"
    by simp
  from a b c e f g show ?thesis by blast
qed

text \<open>
  Claim C1 as stated fails on \<open>precompute_circular_data\<close>: with 3 bins in 2 bars the
  bars take bins 0 and 1 and bin 2 is in neither, so its magnitude 1 leaves both bars at
  the floor; with the 1025 bins of the default transform in 100 bars the last bar ends at
  bin 1000.
\<close>

theorem circular_drops_remainder:
  "circular_bar_bounds 2 3 0 = (0, 1) \<and> circular_bar_bounds 2 3 1 = (1, 2)
   \<and> circular_bar_bounds 100 1025 99 = (990, 1000)
   \<and> circular_bar_heights 2 [0, 0, 1] = [1 / 100, 1 / 100]"
  by (simp add: circular_bar_bounds_def circular_bar_heights_def rms_def slice_def upt_rec)

section \<open>Bar heights: smoothing recurrence, floor and upper bound\<close>

lemma length_file_bar_heights: "length (file_bar_heights nb fd) = nb"
  by (simp add: file_bar_heights_def)

lemma length_circular_bar_heights: "length (circular_bar_heights nb fd) = nb"
  by (simp add: circular_bar_heights_def)

lemma length_smooth: "length (smooth sf p c) = min (length p) (length c)"
  by (simp add: smooth_def)

lemma smooth_nth:
  "i < length p \<Longrightarrow> i < length c \<Longrightarrow> smooth sf p c ! i = sf * p ! i + (1 - sf) * c ! i"
  by (simp add: smooth_def)

lemma animation_frames_length: "length (animation_frames nb prev cols) = length cols"
  by (induction cols arbitrary: prev) (simp_all add: Let_def)

lemma circular_frames_length: "length (circular_frames sf nb prev cols) = length cols"
  by (induction cols arbitrary: prev) (simp_all add: Let_def)

lemma animation_frames_nth:
  "f < length cols \<Longrightarrow>
   animation_frames nb prev cols ! f =
     (case (if f = 0 then prev else Some (animation_frames nb prev cols ! (f - 1))) of
        None \<Rightarrow> file_bar_heights nb (apply_weights (cols ! f))
      | Some p \<Rightarrow> smooth (1 / 2) p (file_bar_heights nb (apply_weights (cols ! f))))"
proof (induction cols arbitrary: prev f)
  case Nil
  then show ?case by simp
next
  case (Cons col cols)
  show ?case
  proof (cases f)
    case 0
    then show ?thesis by (cases prev) (simp_all add: Let_def)
  next
    case (Suc g)
    with Cons.prems have g: "g < length cols" by simp
    show ?thesis
      using Cons.IH [OF g] Suc by (cases g) (simp_all add: Let_def)
  qed
qed

lemma circular_frames_nth:
  "f < length cols \<Longrightarrow>
   circular_frames sf nb prev cols ! f =
     (case (if f = 0 then prev else Some (circular_frames sf nb prev cols ! (f - 1))) of
        None \<Rightarrow> circular_bar_heights nb (apply_weights (cols ! f))
      | Some p \<Rightarrow> smooth sf p (circular_bar_heights nb (apply_weights (cols ! f))))"
proof (induction cols arbitrary: prev f)
  case Nil
  then show ?case by simp
next
  case (Cons col cols)
  show ?case
  proof (cases f)
    case 0
    then show ?thesis by (cases prev) (simp_all add: Let_def)
  next
    case (Suc g)
    with Cons.prems have g: "g < length cols" by simp
    show ?thesis
      using Cons.IH [OF g] Suc by (cases g) (simp_all add: Let_def)
  qed
qed

lemma animation_frames_lengths:
  "f < length cols \<Longrightarrow> (\<And>p. prev = Some p \<Longrightarrow> length p = nb) \<Longrightarrow>
   length (animation_frames nb prev cols ! f) = nb"
proof (induction f)
  case 0
  then show ?case
    by (cases prev) (simp_all add: animation_frames_nth length_smooth length_file_bar_heights)
next
  case (Suc f)
  then have "length (animation_frames nb prev cols ! f) = nb" by simp
  then show ?case
    using Suc.prems(1)
    by (simp add: animation_frames_nth length_smooth length_file_bar_heights)
qed

lemma circular_frames_lengths:
  "f < length cols \<Longrightarrow> (\<And>p. prev = Some p \<Longrightarrow> length p = nb) \<Longrightarrow>
   length (circular_frames sf nb prev cols ! f) = nb"
proof (induction f)
  case 0
  then show ?case
    by (cases prev) (simp_all add: circular_frames_nth length_smooth length_circular_bar_heights)
next
  case (Suc f)
  then have "length (circular_frames sf nb prev cols ! f) = nb" by simp
  then show ?case
    using Suc.prems(1)
    by (simp add: circular_frames_nth length_smooth length_circular_bar_heights)
qed

text \<open>
  Claim C4. \<open>precompute_animation_data\<close> returns one height vector per frame, in frame
  order. Frame 0 holds the raw floored heights, unsmoothed. For every frame \<open>f \<ge> 1\<close>
  and every bar \<open>i\<close>, the stored height is
  \<open>0.5 * height[f-1][i] + (1 - 0.5) * raw[f][i]\<close>, where \<open>height[f-1]\<close> is the stored
  (smoothed) vector of the frame before.
\<close>

theorem smoothing_recurrence:
  assumes "1 \<le> num_bars"
  shows "\<exists>hs. precompute_animation_data num_bars frame_cnt magnitude = Inr hs
           \<and> length hs = frame_cnt
           \<and> (\<forall>f<frame_cnt. length (hs ! f) = num_bars)
           \<and> (0 < frame_cnt \<longrightarrow>
                hs ! 0 = file_bar_heights num_bars (apply_weights (column magnitude 0)))
           \<and> (\<forall>f i. 1 \<le> f \<and> f < frame_cnt \<and> i < num_bars \<longrightarrow>
                hs ! f ! i = 0.5 * hs ! (f - 1) ! i
                  + (1 - 0.5) * file_bar_heights num_bars (apply_weights (column magnitude f)) ! i)"
proof -
  let ?cols = "map (column magnitude) [0..<frame_cnt]"
  let ?hs = "animation_frames num_bars None ?cols"
  have run: "precompute_animation_data num_bars frame_cnt magnitude = Inr ?hs"
    using assms by (simp add: precompute_animation_data_def)
  have len: "length ?hs = frame_cnt"
    by (simp add: animation_frames_length)
  have lens: "length (?hs ! f) = num_bars" if "f < frame_cnt" for f
    using that by (intro animation_frames_lengths) simp_all
  have first: "?hs ! 0 = file_bar_heights num_bars (apply_weights (column magnitude 0))"
    if "0 < frame_cnt"
    using that by (simp add: animation_frames_nth)
  have later: "?hs ! f ! i = 0.5 * ?hs ! (f - 1) ! i
                  + (1 - 0.5) * file_bar_heights num_bars (apply_weights (column magnitude f)) ! i"
    if "1 \<le> f \<and> f < frame_cnt \<and> i < num_bars" for f i
  proof -
    from that have f: "f < length ?cols" "f \<noteq> 0" "f - 1 < frame_cnt" by auto
    have "?hs ! f = smooth (1 / 2) (?hs ! (f - 1))
                      (file_bar_heights num_bars (apply_weights (column magnitude f)))"
      using animation_frames_nth [OF f(1), of num_bars None] f(2) that by simp
    then show ?thesis
      using that lens [OF f(3)] by (simp add: smooth_nth length_file_bar_heights)
  qed
  show ?thesis
    using run len lens first later by blast
qed

lemma animation_step:
  assumes "1 \<le> f" "f < frame_cnt"
  shows "animation_frames nb None (map (column magnitude) [0..<frame_cnt]) ! f =
           smooth (1 / 2) (animation_frames nb None (map (column magnitude) [0..<frame_cnt]) ! (f - 1))
             (file_bar_heights nb (apply_weights (column magnitude f)))"
proof -
  from assms have f: "f < length (map (column magnitude) [0..<frame_cnt])" "f \<noteq> 0" by auto
  show ?thesis
    using animation_frames_nth [OF f(1), of nb None] f(2) assms by simp
qed

lemma circular_step:
  assumes "1 \<le> f" "f < frame_cnt"
  shows "circular_frames sf nb None (map (column magnitude) [0..<frame_cnt]) ! f =
           smooth sf (circular_frames sf nb None (map (column magnitude) [0..<frame_cnt]) ! (f - 1))
             (circular_bar_heights nb (apply_weights (column magnitude f)))"
proof -
  from assms have f: "f < length (map (column magnitude) [0..<frame_cnt])" "f \<noteq> 0" by auto
  show ?thesis
    using circular_frames_nth [OF f(1), of sf nb None] f(2) assms by simp
qed

lemma smooth_step_bound:
  assumes "0 \<le> sf" "sf \<le> 1"
  shows "\<bar>(sf * p + (1 - sf) * c) - p\<bar> \<le> \<bar>c - (p::real)\<bar>"
proof -
  have "(sf * p + (1 - sf) * c) - p = (1 - sf) * (c - p)" by (simp add: algebra_simps)
  then have "\<bar>(sf * p + (1 - sf) * c) - p\<bar> = (1 - sf) * \<bar>c - p\<bar>"
    using assms by (simp add: abs_mult)
  also have "\<dots> \<le> 1 * \<bar>c - p\<bar>"
    using assms by (intro mult_right_mono) simp_all
  finally show ?thesis by simp
qed

lemma smooth_nth_bound:
  assumes "0 \<le> sf" "sf \<le> 1" "i < length p" "i < length c"
  shows "\<bar>smooth sf p c ! i - p ! i\<bar> \<le> \<bar>c ! i - p ! i\<bar>"
  using smooth_step_bound [OF assms(1,2)] assms(3,4) by (simp add: smooth_nth)

text \<open>
  Claim C8. For every frame \<open>f \<ge> 1\<close> and every bar, the stored height moves away from
  the previous stored height by no more than the raw height does:
  \<open>|height[f] - height[f-1]| \<le> |raw[f] - height[f-1]|\<close>. This holds for
  \<open>FileVisualizer\<close> (smoothing factor 0.5), for \<open>precompute_circular_data\<close> with any
  smoothing factor \<open>\<alpha>\<close> in \<open>[0, 1)\<close>, and for the smoothing comprehension itself.
\<close>

theorem smoothing_monotone_bound:
  assumes "1 \<le> num_bars" and "0 \<le> \<alpha>" and "\<alpha> < 1"
  shows "(\<exists>hs. precompute_animation_data num_bars frame_cnt magnitude = Inr hs
            \<and> (\<forall>f i. 1 \<le> f \<and> f < frame_cnt \<and> i < num_bars \<longrightarrow>
                 \<bar>hs ! f ! i - hs ! (f - 1) ! i\<bar>
                   \<le> \<bar>file_bar_heights num_bars (apply_weights (column magnitude f)) ! i
                        - hs ! (f - 1) ! i\<bar>))
       \<and> (\<exists>hs. precompute_circular_data \<alpha> num_bars frame_cnt magnitude = Inr hs
            \<and> (\<forall>f i. 1 \<le> f \<and> f < frame_cnt \<and> i < num_bars \<longrightarrow>
                 \<bar>hs ! f ! i - hs ! (f - 1) ! i\<bar>
                   \<le> \<bar>circular_bar_heights num_bars (apply_weights (column magnitude f)) ! i
                        - hs ! (f - 1) ! i\<bar>))
       \<and> (\<forall>prev_heights bar_heights i. i < length prev_heights \<and> i < length bar_heights \<longrightarrow>
             \<bar>smooth \<alpha> prev_heights bar_heights ! i - prev_heights ! i\<bar>
               \<le> \<bar>bar_heights ! i - prev_heights ! i\<bar>)"
proof -
  let ?cols = "map (column magnitude) [0..<frame_cnt]"
  let ?hs = "animation_frames num_bars None ?cols"
  let ?cs = "circular_frames \<alpha> num_bars None ?cols"
  have a1: "\<alpha> \<le> 1" using assms(3) by simp
  have run: "precompute_animation_data num_bars frame_cnt magnitude = Inr ?hs"
    using assms(1) by (simp add: precompute_animation_data_def)
  have crun: "precompute_circular_data \<alpha> num_bars frame_cnt magnitude = Inr ?cs"
    using assms(1) by (simp add: precompute_circular_data_def)
  have fbound: "\<bar>?hs ! f ! i - ?hs ! (f - 1) ! i\<bar>
                   \<le> \<bar>file_bar_heights num_bars (apply_weights (column magnitude f)) ! i
                        - ?hs ! (f - 1) ! i\<bar>"
    if h: "1 \<le> f \<and> f < frame_cnt \<and> i < num_bars" for f i
  proof -
    from h have "f - 1 < length ?cols" by auto
    then have "length (?hs ! (f - 1)) = num_bars"
      by (intro animation_frames_lengths) simp_all
    then show ?thesis
      using h animation_step [of f frame_cnt num_bars magnitude]
        smooth_nth_bound [of "1 / 2" i "?hs ! (f - 1)"
          "file_bar_heights num_bars (apply_weights (column magnitude f))"]
      by (simp add: length_file_bar_heights)
  qed
  have circ: "\<bar>?cs ! f ! i - ?cs ! (f - 1) ! i\<bar>
                   \<le> \<bar>circular_bar_heights num_bars (apply_weights (column magnitude f)) ! i
                        - ?cs ! (f - 1) ! i\<bar>"
    if h: "1 \<le> f \<and> f < frame_cnt \<and> i < num_bars" for f i
  proof -
    from h have "f - 1 < length ?cols" by auto
    then have "length (?cs ! (f - 1)) = num_bars"
      by (intro circular_frames_lengths) simp_all
    then show ?thesis
      using h circular_step [of f frame_cnt \<alpha> num_bars magnitude]
        smooth_nth_bound [OF assms(2) a1, of i "?cs ! (f - 1)"
          "circular_bar_heights num_bars (apply_weights (column magnitude f))"]
      by (simp add: length_circular_bar_heights)
  qed
  have gen: "\<bar>smooth \<alpha> p c ! i - p ! i\<bar> \<le> \<bar>c ! i - p ! i\<bar>"
    if "i < length p \<and> i < length c" for p c i
    using that smooth_nth_bound [OF assms(2) a1] by blast
  show ?thesis
    using run crun fbound circ gen by blast
qed

lemma file_bar_heights_floor: "x \<in> set (file_bar_heights nb fd) \<Longrightarrow> 1 / 1000000 \<le> x"
  by (auto simp: file_bar_heights_def Let_def split: prod.splits if_splits)

lemma circular_bar_heights_floor: "x \<in> set (circular_bar_heights nb fd) \<Longrightarrow> 1 / 100 \<le> x"
  by (auto simp: circular_bar_heights_def Let_def split: prod.splits if_splits)

lemma smooth_lower:
  assumes "0 \<le> sf" "sf \<le> 1" "\<forall>x\<in>set p. lo \<le> x" "\<forall>x\<in>set c. lo \<le> x"
    and "x \<in> set (smooth sf p c)"
  shows "lo \<le> x"
proof -
  from assms(5) obtain a b where ab: "(a, b) \<in> set (zip p c)" "x = sf * a + (1 - sf) * b"
    by (auto simp: smooth_def)
  then have "lo \<le> a" "lo \<le> b"
    using assms(3,4) by (auto dest: set_zip_leftD set_zip_rightD)
  then have "sf * lo + (1 - sf) * lo \<le> sf * a + (1 - sf) * b"
    using assms(1,2) by (intro add_mono mult_left_mono) simp_all
  then show ?thesis using ab(2) by (simp add: algebra_simps)
qed

lemma smooth_upper:
  assumes "0 \<le> sf" "sf \<le> 1" "\<forall>x\<in>set p. x \<le> hi" "\<forall>x\<in>set c. x \<le> hi"
    and "x \<in> set (smooth sf p c)"
  shows "x \<le> hi"
proof -
  from assms(5) obtain a b where ab: "(a, b) \<in> set (zip p c)" "x = sf * a + (1 - sf) * b"
    by (auto simp: smooth_def)
  then have "a \<le> hi" "b \<le> hi"
    using assms(3,4) by (auto dest: set_zip_leftD set_zip_rightD)
  then have "sf * a + (1 - sf) * b \<le> sf * hi + (1 - sf) * hi"
    using assms(1,2) by (intro add_mono mult_left_mono) simp_all
  then show ?thesis using ab(2) by (simp add: algebra_simps)
qed

lemma animation_frames_lower:
  assumes "\<And>p. prev = Some p \<Longrightarrow> \<forall>x\<in>set p. lo \<le> x"
    and "\<forall>c\<in>set cols. \<forall>x\<in>set (file_bar_heights nb (apply_weights c)). lo \<le> x"
  shows "\<forall>h\<in>set (animation_frames nb prev cols). \<forall>x\<in>set h. lo \<le> x"
  using assms
proof (induction cols arbitrary: prev)
  case Nil
  show ?case by simp
next
  case (Cons col cols)
  let ?raw = "file_bar_heights nb (apply_weights col)"
  let ?h = "case prev of None \<Rightarrow> ?raw | Some p \<Rightarrow> smooth (1 / 2) p ?raw"
  have raw: "\<forall>x\<in>set ?raw. lo \<le> x" using Cons.prems(2) by simp
  have h: "\<forall>x\<in>set ?h. lo \<le> x"
  proof (cases prev)
    case None
    then show ?thesis using raw by simp
  next
    case (Some p)
    then have "\<forall>x\<in>set p. lo \<le> x" by (rule Cons.prems(1))
    then show ?thesis
      using raw Some smooth_lower [of "1 / 2" p lo ?raw] by auto
  qed
  have "\<forall>h\<in>set (animation_frames nb (Some ?h) cols). \<forall>x\<in>set h. lo \<le> x"
    using h Cons.prems(2) by (intro Cons.IH) auto
  then show ?case using h by (simp add: Let_def)
qed

lemma animation_frames_upper:
  assumes "\<And>p. prev = Some p \<Longrightarrow> \<forall>x\<in>set p. x \<le> hi"
    and "\<forall>c\<in>set cols. \<forall>x\<in>set (file_bar_heights nb (apply_weights c)). x \<le> hi"
  shows "\<forall>h\<in>set (animation_frames nb prev cols). \<forall>x\<in>set h. x \<le> hi"
  using assms
proof (induction cols arbitrary: prev)
  case Nil
  show ?case by simp
next
  case (Cons col cols)
  let ?raw = "file_bar_heights nb (apply_weights col)"
  let ?h = "case prev of None \<Rightarrow> ?raw | Some p \<Rightarrow> smooth (1 / 2) p ?raw"
  have raw: "\<forall>x\<in>set ?raw. x \<le> hi" using Cons.prems(2) by simp
  have h: "\<forall>x\<in>set ?h. x \<le> hi"
  proof (cases prev)
    case None
    then show ?thesis using raw by simp
  next
    case (Some p)
    then have "\<forall>x\<in>set p. x \<le> hi" by (rule Cons.prems(1))
    then show ?thesis
      using raw Some smooth_upper [of "1 / 2" p hi ?raw] by auto
  qed
  have "\<forall>h\<in>set (animation_frames nb (Some ?h) cols). \<forall>x\<in>set h. x \<le> hi"
    using h Cons.prems(2) by (intro Cons.IH) auto
  then show ?case using h by (simp add: Let_def)
qed

lemma circular_frames_lower:
  assumes "0 \<le> sf" "sf \<le> 1"
    and "\<And>p. prev = Some p \<Longrightarrow> \<forall>x\<in>set p. lo \<le> x"
    and "\<forall>c\<in>set cols. \<forall>x\<in>set (circular_bar_heights nb (apply_weights c)). lo \<le> x"
  shows "\<forall>h\<in>set (circular_frames sf nb prev cols). \<forall>x\<in>set h. lo \<le> x"
  using assms(3,4)
proof (induction cols arbitrary: prev)
  case Nil
  show ?case by simp
next
  case (Cons col cols)
  let ?raw = "circular_bar_heights nb (apply_weights col)"
  let ?h = "case prev of None \<Rightarrow> ?raw | Some p \<Rightarrow> smooth sf p ?raw"
  have raw: "\<forall>x\<in>set ?raw. lo \<le> x" using Cons.prems(2) by simp
  have h: "\<forall>x\<in>set ?h. lo \<le> x"
  proof (cases prev)
    case None
    then show ?thesis using raw by simp
  next
    case (Some p)
    then have "\<forall>x\<in>set p. lo \<le> x" by (rule Cons.prems(1))
    then show ?thesis
      using raw Some smooth_lower [OF assms(1,2), of p lo ?raw] by auto
  qed
  have "\<forall>h\<in>set (circular_frames sf nb (Some ?h) cols). \<forall>x\<in>set h. lo \<le> x"
    using h Cons.prems(2) by (intro Cons.IH) auto
  then show ?case using h by (simp add: Let_def)
qed

lemma linspace_weights:
  assumes "w \<in> set (linspace 1 (3 / 10) n)"
  shows "3 / 10 \<le> w \<and> w \<le> 1"
proof (cases "n = 1")
  case True
  with assms show ?thesis by (simp add: linspace_def)
next
  case False
  with assms obtain k where k: "k < n" "w = 1 + real k * ((3 / 10 - 1) / real (n - 1))"
    by (auto simp: linspace_def)
  with False have n: "0 < real (n - 1)" "real k \<le> real (n - 1)" by auto
  then have r: "0 \<le> real k / real (n - 1)" "real k / real (n - 1) \<le> 1" by simp_all
  have "w = 1 - (7 / 10) * (real k / real (n - 1))"
    using k(2) by (simp add: field_simps)
  then show ?thesis using r by simp
qed

lemma apply_weights_unit:
  assumes "\<forall>x\<in>set fd. 0 \<le> x \<and> x \<le> 1" and "y \<in> set (apply_weights fd)"
  shows "0 \<le> y \<and> y \<le> 1"
proof -
  from assms(2) obtain x w where xw: "(x, w) \<in> set (zip fd (linspace 1 (3 / 10) (length fd)))"
      "y = x * w"
    by (auto simp: apply_weights_def Let_def)
  then have "x \<in> set fd" "w \<in> set (linspace 1 (3 / 10) (length fd))"
    by (auto dest: set_zip_leftD set_zip_rightD)
  then have "0 \<le> x" "x \<le> 1" "0 \<le> w" "w \<le> 1"
    using assms(1) linspace_weights [of w "length fd"] by auto
  then show ?thesis
    using xw(2) by (simp add: mult_le_one)
qed

lemma sum_squares_le_length:
  "\<forall>x\<in>set xs. 0 \<le> x \<and> x \<le> (1::real) \<Longrightarrow> sum_list (map (\<lambda>x. x\<^sup>2) xs) \<le> real (length xs)"
proof (induction xs)
  case Nil
  show ?case by simp
next
  case (Cons a xs)
  then have "a\<^sup>2 \<le> 1" by (simp add: power_le_one)
  with Cons show ?case by simp
qed

lemma rms_le_one:
  assumes "\<forall>x\<in>set xs. 0 \<le> x \<and> x \<le> 1"
  shows "rms xs \<le> 1"
proof -
  have "sum_list (map (\<lambda>x. x\<^sup>2) xs) / real (length xs) \<le> 1"
    using sum_squares_le_length [OF assms] by (cases "xs = []") (simp_all add: field_simps)
  then show ?thesis by (simp add: rms_def)
qed

lemma slice_subset: "set (slice xs a b) \<subseteq> set xs"
  unfolding slice_def using set_take_subset set_drop_subset by fast

lemma file_bar_heights_le_one:
  assumes "\<forall>x\<in>set fd. 0 \<le> x \<and> x \<le> 1" and "h \<in> set (file_bar_heights nb fd)"
  shows "h \<le> 1"
proof -
  have "rms (slice fd a b) \<le> 1" for a b
    using assms(1) slice_subset [of fd a b] by (intro rms_le_one) blast
  then show ?thesis
    using assms(2) by (auto simp: file_bar_heights_def Let_def split: prod.splits if_splits)
qed

lemma column_unit:
  assumes "\<forall>row\<in>set magnitude. length row = frame_cnt \<and> (\<forall>x\<in>set row. 0 \<le> x \<and> x \<le> 1)"
    and "f < frame_cnt" and "x \<in> set (column magnitude f)"
  shows "0 \<le> x \<and> x \<le> 1"
proof -
  from assms(3) obtain row where row: "row \<in> set magnitude" "x = row ! f"
    by (auto simp: column_def)
  with assms(1,2) have "x \<in> set row" by simp
  with assms(1) row(1) show ?thesis by blast
qed

text \<open>
  Claim C9. With every normalised magnitude in \<open>[0, 1]\<close>: the frequency weights lie in
  \<open>[0.3, 1]\<close>, the root mean square of every group of weighted bins is at most 1, every
  raw floored bar height lies in \<open>(0, 1]\<close>, and so does every height that
  \<open>precompute_animation_data\<close> stores, after any number of smoothing steps.
\<close>

theorem heights_at_most_one:
  assumes "1 \<le> num_bars"
    and "\<forall>row\<in>set magnitude. length row = frame_cnt \<and> (\<forall>x\<in>set row. 0 \<le> x \<and> x \<le> 1)"
  shows "(\<forall>w\<in>set (linspace 1 (3 / 10) n). 3 / 10 \<le> w \<and> w \<le> 1)
       \<and> (\<forall>f<frame_cnt. \<forall>a b. rms (slice (apply_weights (column magnitude f)) a b) \<le> 1)
       \<and> (\<forall>f<frame_cnt. \<forall>x\<in>set (file_bar_heights num_bars (apply_weights (column magnitude f))).
              0 < x \<and> x \<le> 1)
       \<and> (\<exists>hs. precompute_animation_data num_bars frame_cnt magnitude = Inr hs
              \<and> (\<forall>h\<in>set hs. \<forall>x\<in>set h. 0 < x \<and> x \<le> 1))"
proof -
  let ?cols = "map (column magnitude) [0..<frame_cnt]"
  let ?hs = "animation_frames num_bars None ?cols"
  have weights: "\<forall>w\<in>set (linspace 1 (3 / 10) n). 3 / 10 \<le> w \<and> w \<le> 1"
    using linspace_weights by blast
  have weighted: "\<forall>y\<in>set (apply_weights (column magnitude f)). 0 \<le> y \<and> y \<le> 1"
    if "f < frame_cnt" for f
    using column_unit [OF assms(2) that] apply_weights_unit by blast
  have raw_rms: "rms (slice (apply_weights (column magnitude f)) a b) \<le> 1"
    if "f < frame_cnt" for f a b
    using weighted [OF that] slice_subset [of "apply_weights (column magnitude f)" a b]
    by (intro rms_le_one) blast
  have raw: "\<forall>x\<in>set (file_bar_heights num_bars (apply_weights (column magnitude f))).
              0 < x \<and> x \<le> 1"
    if "f < frame_cnt" for f
  proof
    fix x assume x: "x \<in> set (file_bar_heights num_bars (apply_weights (column magnitude f)))"
    have "1 / 1000000 \<le> x" using x by (rule file_bar_heights_floor)
    moreover have "x \<le> 1" using weighted [OF that] x by (rule file_bar_heights_le_one)
    ultimately show "0 < x \<and> x \<le> 1" by simp
  qed
  have run: "precompute_animation_data num_bars frame_cnt magnitude = Inr ?hs"
    using assms(1) by (simp add: precompute_animation_data_def)
  have cols: "\<forall>c\<in>set ?cols. \<forall>x\<in>set (file_bar_heights num_bars (apply_weights c)).
                1 / 1000000 \<le> x \<and> x \<le> 1"
    using raw file_bar_heights_floor by auto
  have lower: "\<forall>h\<in>set ?hs. \<forall>x\<in>set h. 1 / 1000000 \<le> x"
    using cols by (intro animation_frames_lower) simp_all
  have upper: "\<forall>h\<in>set ?hs. \<forall>x\<in>set h. x \<le> 1"
    using cols by (intro animation_frames_upper) simp_all
  have stored: "\<forall>h\<in>set ?hs. \<forall>x\<in>set h. 0 < x \<and> x \<le> 1"
  proof (intro ballI)
    fix h x assume hx: "h \<in> set ?hs" "x \<in> set h"
    then have "1 / 1000000 \<le> x" "x \<le> 1" using lower upper by blast+
    then show "0 < x \<and> x \<le> 1" by simp
  qed
  show ?thesis
    using weights raw_rms raw run stored by blast
qed

lemma column_example: "column [[0, 1]] 0 = [0]" "column [[0, 1]] (Suc 0) = [1]"
  by (simp_all add: column_def)

lemma weights_single: "apply_weights [x] = [x]"
  by (simp add: apply_weights_def linspace_def)

lemma file_single_bar: "file_bar_heights (Suc 0) [x] = [max \<bar>x\<bar> (1 / 1000000)]"
  by (simp add: file_bar_heights_def bar_bounds_def rms_def slice_def)

lemma circular_single_bar: "circular_bar_heights (Suc 0) [x] = [max \<bar>x\<bar> (1 / 100)]"
  by (simp add: circular_bar_heights_def circular_bar_bounds_def rms_def slice_def)

text \<open>
  One bin, two frames with magnitudes 0 and 1: frame 0 stores the floor, frame 1 the mean
  of the floor and 1.
\<close>

theorem smoothing_recurrence_witness:
  "\<exists>hs. precompute_animation_data 1 2 [[0, 1]] = Inr hs \<and> length hs = 2
        \<and> hs ! 0 = [1 / 1000000] \<and> hs ! 1 ! 0 = 1000001 / 2000000"
proof -
  have h: "1 \<le> (1::nat)" by simp
  from smoothing_recurrence [OF h, of 2 "[[0, 1]]"]
  obtain hs where hs: "precompute_animation_data 1 2 [[0, 1]] = Inr hs" "length hs = 2"
      "hs ! 0 = file_bar_heights 1 (apply_weights (column [[0, 1]] 0))"
      "hs ! 1 ! 0 = 0.5 * hs ! (1 - 1) ! 0
         + (1 - 0.5) * file_bar_heights 1 (apply_weights (column [[0, 1]] 1)) ! 0"
    by force
  have "hs ! 0 = [1 / 1000000]"
    using hs(3) by (simp add: column_example weights_single file_single_bar)
  moreover from this have "hs ! 1 ! 0 = 1000001 / 2000000"
    using hs(4) by (simp add: column_example weights_single file_single_bar)
  ultimately show ?thesis using hs(1,2) by blast
qed

text \<open>
  The same two frames, for \<open>FileVisualizer\<close> and for the circular loop with smoothing
  factor 1/4.
\<close>

theorem smoothing_monotone_bound_witness:
  "(\<exists>hs. precompute_animation_data 1 2 [[0, 1]] = Inr hs
        \<and> \<bar>hs ! 1 ! 0 - hs ! 0 ! 0\<bar> \<le> \<bar>1 - hs ! 0 ! 0\<bar>)
   \<and> (\<exists>hs. precompute_circular_data (1 / 4) 1 2 [[0, 1]] = Inr hs
        \<and> \<bar>hs ! 1 ! 0 - hs ! 0 ! 0\<bar> \<le> \<bar>1 - hs ! 0 ! 0\<bar>)
   \<and> \<bar>smooth (1 / 4) [0] [1] ! 0 - [0] ! 0\<bar> \<le> \<bar>[1] ! 0 - [0::real] ! 0\<bar>"
proof -
  have h: "1 \<le> (1::nat)" "0 \<le> (1 / 4 :: real)" "(1 / 4 :: real) < 1" by simp_all
  note w = smoothing_monotone_bound [OF h, of 2 "[[0, 1]]"]
  have raw: "file_bar_heights 1 (apply_weights (column [[0, 1]] 1)) ! 0 = 1"
    "circular_bar_heights 1 (apply_weights (column [[0, 1]] 1)) ! 0 = 1"
    by (simp_all add: column_example weights_single file_single_bar circular_single_bar)
  from w obtain hs where hs: "precompute_animation_data 1 2 [[0, 1]] = Inr hs"
      "\<forall>f i. 1 \<le> f \<and> f < 2 \<and> i < 1 \<longrightarrow>
          \<bar>hs ! f ! i - hs ! (f - 1) ! i\<bar>
            \<le> \<bar>file_bar_heights 1 (apply_weights (column [[0, 1]] f)) ! i - hs ! (f - 1) ! i\<bar>"
    by blast
  have "\<bar>hs ! 1 ! 0 - hs ! (1 - 1) ! 0\<bar>
            \<le> \<bar>file_bar_heights 1 (apply_weights (column [[0, 1]] 1)) ! 0 - hs ! (1 - 1) ! 0\<bar>"
    by (rule hs(2) [rule_format]) simp
  then have a: "\<bar>hs ! 1 ! 0 - hs ! 0 ! 0\<bar> \<le> \<bar>1 - hs ! 0 ! 0\<bar>"
    using raw by simp
  from w obtain cs where cs: "precompute_circular_data (1 / 4) 1 2 [[0, 1]] = Inr cs"
      "\<forall>f i. 1 \<le> f \<and> f < 2 \<and> i < 1 \<longrightarrow>
          \<bar>cs ! f ! i - cs ! (f - 1) ! i\<bar>
            \<le> \<bar>circular_bar_heights 1 (apply_weights (column [[0, 1]] f)) ! i - cs ! (f - 1) ! i\<bar>"
    by blast
  have "\<bar>cs ! 1 ! 0 - cs ! (1 - 1) ! 0\<bar>
            \<le> \<bar>circular_bar_heights 1 (apply_weights (column [[0, 1]] 1)) ! 0 - cs ! (1 - 1) ! 0\<bar>"
    by (rule cs(2) [rule_format]) simp
  then have b: "\<bar>cs ! 1 ! 0 - cs ! 0 ! 0\<bar> \<le> \<bar>1 - cs ! 0 ! 0\<bar>"
    using raw by simp
  from w have g: "\<forall>prev_heights bar_heights i. i < length prev_heights \<and> i < length bar_heights \<longrightarrow>
             \<bar>smooth (1 / 4) prev_heights bar_heights ! i - prev_heights ! i\<bar>
               \<le> \<bar>bar_heights ! i - prev_heights ! i\<bar>"
    by blast
  have c: "\<bar>smooth (1 / 4) [0] [1] ! 0 - [0] ! 0\<bar> \<le> \<bar>[1] ! 0 - [0::real] ! 0\<bar>"
    by (rule g [rule_format]) simp
  from a b c hs(1) cs(1) show ?thesis by blast
qed

text \<open>
  The two-frame example again: the smoothed height of frame 1 lies in \<open>(0, 1]\<close>.
\<close>

theorem heights_at_most_one_witness:
  "(\<exists>hs. precompute_animation_data 1 2 [[0, 1]] = Inr hs \<and> 0 < hs ! 1 ! 0 \<and> hs ! 1 ! 0 \<le> 1)
   \<and> rms (slice (apply_weights (column [[0, 1]] 1)) 0 1) \<le> 1"
proof -
  have h: "1 \<le> (1::nat)" by simp
  have m: "\<forall>row\<in>set [[0, 1 :: real]]. length row = 2 \<and> (\<forall>x\<in>set row. 0 \<le> x \<and> x \<le> 1)"
    by simp
  note w = heights_at_most_one [OF h m, of 0]
  from w obtain hs where hs: "precompute_animation_data 1 2 [[0, 1]] = Inr hs"
      "\<forall>h\<in>set hs. \<forall>x\<in>set h. 0 < x \<and> x \<le> 1"
    by blast
  have eq: "hs = animation_frames 1 None (map (column [[0, 1]]) [0..<2])"
    using hs(1) by (simp add: precompute_animation_data_def)
  have "length (animation_frames 1 None (map (column [[0, 1]]) [0..<2]) ! 1) = 1"
    by (intro animation_frames_lengths) simp_all
  then have "length hs = 2" "length (hs ! 1) = 1"
    using eq by (simp_all add: animation_frames_length)
  then have "hs ! 1 \<in> set hs" "hs ! 1 ! 0 \<in> set (hs ! 1)" by simp_all
  with hs(2) have a: "0 < hs ! 1 ! 0 \<and> hs ! 1 ! 0 \<le> 1" by blast
  from w have "\<forall>f<2. \<forall>a b. rms (slice (apply_weights (column [[0, 1]] f)) a b) \<le> 1"
    by blast
  then have b: "rms (slice (apply_weights (column [[0, 1]] 1)) 0 1) \<le> 1" by simp
  from a b hs(1) show ?thesis by blast
qed

section \<open>Spectrogram normalisation: properties\<close>

lemma np_max_ge: "x \<in> set xs \<Longrightarrow> x \<le> np_max xs"
  by (simp add: np_max_def)

lemma log1p_nonneg:
  assumes "row \<in> set (log1p_magnitude stft)" "x \<in> set row"
  shows "0 \<le> x"
proof -
  from assms obtain z where "x = ln (1 + cmod z)"
    by (auto simp: log1p_magnitude_def)
  then show ?thesis by simp
qed

lemma normalize_row_unit:
  assumes "\<forall>x\<in>set row. 0 \<le> x" and "y \<in> set (normalize_row row)"
  shows "0 \<le> y \<and> y \<le> 1"
proof (cases "np_max row > 0")
  case True
  with assms(2) obtain x where x: "x \<in> set row" "y = x / np_max row"
    by (auto simp: normalize_row_def)
  then have "0 \<le> x" "x \<le> np_max row"
    using assms(1) np_max_ge by auto
  with True x(2) show ?thesis by simp
next
  case False
  with assms(2) have y: "y \<in> set row" by (simp add: normalize_row_def)
  then have "0 \<le> y" "y \<le> np_max row"
    using assms(1) np_max_ge by auto
  with False show ?thesis by simp
qed

lemma normalize_row_zero:
  assumes "\<forall>x\<in>set row. 0 \<le> x" and "\<not> np_max row > 0" and "y \<in> set (normalize_row row)"
  shows "y = 0"
proof -
  from assms(2,3) have y: "y \<in> set row" by (simp add: normalize_row_def)
  then have "0 \<le> y" "y \<le> np_max row"
    using assms(1) np_max_ge by auto
  with assms(2) show ?thesis by simp
qed

lemma global_unit:
  assumes "\<forall>row\<in>set m. \<forall>x\<in>set row. 0 \<le> x" and "0 < np_max (concat m)"
    and "row \<in> set (map (map (\<lambda>x. x / np_max (concat m))) m)" and "y \<in> set row"
  shows "0 \<le> y \<and> y \<le> 1"
proof -
  from assms(3,4) obtain r x where rx: "r \<in> set m" "x \<in> set r" "y = x / np_max (concat m)"
    by auto
  then have "x \<in> set (concat m)" by auto
  then have "x \<le> np_max (concat m)" by (rule np_max_ge)
  moreover have "0 \<le> x" using rx assms(1) by blast
  ultimately show ?thesis using assms(2) rx(3) by simp
qed

text \<open>
  Claim C6, as amended. After \<open>log(1 + x)\<close> compression, \<open>FileVisualizer.__init__\<close>
  (every bin has at least one frame) divides the series of each frequency bin by the
  maximum that bin reaches over all frames, and leaves the bin as it is, all zeros, when
  that maximum is not positive; every normalised magnitude then lies in \<open>[0, 1]\<close>.
  \<open>CircularAudioVisualizer.__init__\<close> of deepseekVisualise.py divides every entry by the
  one maximum of the whole matrix instead; when that maximum is positive, every normalised
  magnitude lies in \<open>[0, 1]\<close>.
\<close>

theorem per_bin_normalization:
  assumes "[] \<notin> set stft"
  shows "(\<exists>norm. normalize_bins (log1p_magnitude stft) = Inr norm
            \<and> length norm = length stft
            \<and> (\<forall>b<length stft.
                  norm ! b =
                    (if np_max (log1p_magnitude stft ! b) > 0
                     then map (\<lambda>x. x / np_max (log1p_magnitude stft ! b)) (log1p_magnitude stft ! b)
                     else log1p_magnitude stft ! b))
            \<and> (\<forall>b<length stft. \<not> np_max (log1p_magnitude stft ! b) > 0
                  \<longrightarrow> (\<forall>x\<in>set (norm ! b). x = 0))
            \<and> (\<forall>row\<in>set norm. \<forall>x\<in>set row. 0 \<le> x \<and> x \<le> 1))
       \<and> (stft \<noteq> [] \<and> 0 < np_max (concat (log1p_magnitude stft))
            \<longrightarrow> (\<exists>norm. global_normalize (log1p_magnitude stft) = Inr norm
                   \<and> norm = map (map (\<lambda>x. x / np_max (concat (log1p_magnitude stft))))
                              (log1p_magnitude stft)
                   \<and> (\<forall>row\<in>set norm. \<forall>x\<in>set row. 0 \<le> x \<and> x \<le> 1)))"
proof -
  let ?m = "log1p_magnitude stft"
  let ?n = "map normalize_row ?m"
  have len: "length ?m = length stft" by (simp add: log1p_magnitude_def)
  have "[] \<notin> set ?m" using assms by (auto simp: log1p_magnitude_def)
  then have run: "normalize_bins ?m = Inr ?n" by (simp add: normalize_bins_def)
  have nonneg: "\<forall>row\<in>set ?m. \<forall>x\<in>set row. 0 \<le> x"
    using log1p_nonneg by blast
  have rows: "?n ! b = (if np_max (?m ! b) > 0
                     then map (\<lambda>x. x / np_max (?m ! b)) (?m ! b) else ?m ! b)"
    if "b < length stft" for b
    using that len by (simp add: normalize_row_def)
  have zeros: "\<forall>x\<in>set (?n ! b). x = 0"
    if "b < length stft" "\<not> np_max (?m ! b) > 0" for b
  proof
    fix x assume x: "x \<in> set (?n ! b)"
    from that(1) len have "?m ! b \<in> set ?m" by simp
    then have "\<forall>x\<in>set (?m ! b). 0 \<le> x" using nonneg by blast
    then show "x = 0"
      using that x len normalize_row_zero [of "?m ! b" x] by simp
  qed
  have unit: "\<forall>row\<in>set ?n. \<forall>x\<in>set row. 0 \<le> x \<and> x \<le> 1"
    using nonneg normalize_row_unit by auto
  have perbin: "\<exists>norm. normalize_bins ?m = Inr norm
            \<and> length norm = length stft
            \<and> (\<forall>b<length stft.
                  norm ! b = (if np_max (?m ! b) > 0
                     then map (\<lambda>x. x / np_max (?m ! b)) (?m ! b) else ?m ! b))
            \<and> (\<forall>b<length stft. \<not> np_max (?m ! b) > 0 \<longrightarrow> (\<forall>x\<in>set (norm ! b). x = 0))
            \<and> (\<forall>row\<in>set norm. \<forall>x\<in>set row. 0 \<le> x \<and> x \<le> 1)"
    using run len rows zeros unit by (intro exI [of _ ?n]) simp
  have glob: "\<exists>norm. global_normalize ?m = Inr norm
                   \<and> norm = map (map (\<lambda>x. x / np_max (concat ?m))) ?m
                   \<and> (\<forall>row\<in>set norm. \<forall>x\<in>set row. 0 \<le> x \<and> x \<le> 1)"
    if h: "stft \<noteq> [] \<and> 0 < np_max (concat ?m)"
  proof -
    from h have pos: "0 < np_max (concat ?m)" by simp
    from h obtain row rows where "?m = row # rows"
      by (cases ?m) (auto simp: log1p_magnitude_def)
    with \<open>[] \<notin> set ?m\<close> have "concat ?m \<noteq> []" by auto
    then have "global_normalize ?m = Inr (map (map (\<lambda>x. x / np_max (concat ?m))) ?m)"
      using pos by (simp add: global_normalize_def)
    then show ?thesis
      using global_unit [OF nonneg pos] by blast
  qed
  show ?thesis using perbin glob by blast
qed

text \<open>
  Claim C6 as stated fails on deepseekVisualise.py: with two bins that reach 1 and 2, the
  first bin is divided by 2, the maximum of the other bin, where the division by its own
  maximum gives 1; and on an all-zero matrix the division is not skipped.
\<close>

theorem global_normalization_counterexample:
  "global_normalize [[1], [2]] = Inr [[1 / 2], [1]]
   \<and> normalize_bins [[1], [2]] = Inr [[1], [1]]
   \<and> global_normalize [[0], [0]] = Inl NanResult"
  by (simp add: global_normalize_def normalize_bins_def normalize_row_def np_max_def)

lemma log1p_example: "log1p_magnitude [[0, 1]] = [[0, ln 2]]"
  by (simp add: log1p_magnitude_def)

lemma np_max_example: "np_max [0, ln 2] = ln 2"
  by (simp add: np_max_def max_def)

text \<open>
  One bin with the transform values 0 and 1: the compressed series \<open>[0, ln 2]\<close> is
  normalised to \<open>[0, 1]\<close> by either script.
\<close>

theorem per_bin_normalization_witness:
  "(\<exists>norm. normalize_bins (log1p_magnitude [[0, 1]]) = Inr norm \<and> norm ! 0 = [0, 1])
   \<and> (\<exists>norm. global_normalize (log1p_magnitude [[0, 1]]) = Inr norm \<and> norm = [[0, 1]])"
proof -
  have h: "[] \<notin> set [[0, 1 :: complex]]" by simp
  have pos: "[[0, 1 :: complex]] \<noteq> [] \<and> 0 < np_max (concat (log1p_magnitude [[0, 1]]))"
    by (simp add: log1p_example np_max_example)
  note w = per_bin_normalization [OF h]
  from w [THEN conjunct1]
  obtain norm where n: "normalize_bins (log1p_magnitude [[0, 1]]) = Inr norm"
      and rows: "\<forall>b<length [[0, 1 :: complex]].
          norm ! b =
            (if np_max (log1p_magnitude [[0, 1]] ! b) > 0
             then map (\<lambda>x. x / np_max (log1p_magnitude [[0, 1]] ! b)) (log1p_magnitude [[0, 1]] ! b)
             else log1p_magnitude [[0, 1]] ! b)"
    by (elim exE conjE)
  have "norm ! 0 = (if np_max (log1p_magnitude [[0, 1]] ! 0) > 0
             then map (\<lambda>x. x / np_max (log1p_magnitude [[0, 1]] ! 0)) (log1p_magnitude [[0, 1]] ! 0)
             else log1p_magnitude [[0, 1]] ! 0)"
    by (rule rows [rule_format]) simp
  then have a: "norm ! 0 = [0, 1]"
    by (simp add: log1p_example np_max_example)
  from mp [OF w [THEN conjunct2] pos]
  obtain g where g: "global_normalize (log1p_magnitude [[0, 1]]) = Inr g"
      and gv: "g = map (map (\<lambda>x. x / np_max (concat (log1p_magnitude [[0, 1]]))))
                     (log1p_magnitude [[0, 1]])"
    by (elim exE conjE)
  from gv have b: "g = [[0, 1]]"
    by (simp add: log1p_example np_max_example)
  from n a g b show ?thesis by blast
qed

section \<open>Height floor\<close>

lemma global_normalize_ok:
  assumes "concat magnitude \<noteq> []" and "0 < np_max (concat magnitude)"
  shows "global_normalize magnitude
           = Inr (map (map (\<lambda>x. x / np_max (concat magnitude))) magnitude)"
  using assms by (simp add: global_normalize_def)

text \<open>
  Claim C5, as amended. Every stored bar height is at least the floor constant of its
  script and so never zero, also after smoothing: the floor is \<open>1e-6\<close> in
  \<open>FileVisualizer.precompute_animation_data\<close>; it is \<open>0.01\<close> in
  \<open>precompute_circular_data\<close> of deepseekVisualise.py (smoothing factor in \<open>[0, 1]\<close>),
  for every transform whose compressed spectrogram has a positive global maximum, which
  is where the global normalisation yields numbers. A bar whose bin group is empty has
  exactly the floor as its raw height.
\<close>

theorem height_floor:
  assumes "1 \<le> num_bars" and "0 \<le> sf" and "sf \<le> 1"
  shows "(\<exists>hs. precompute_animation_data num_bars frame_cnt magnitude = Inr hs
            \<and> (\<forall>h\<in>set hs. \<forall>x\<in>set h. 1 / 1000000 \<le> x \<and> 0 < x))
       \<and> (concat (log1p_magnitude stft) \<noteq> [] \<and> 0 < np_max (concat (log1p_magnitude stft))
            \<longrightarrow> (\<exists>hs. circular_visualizer_heights sf num_bars stft = Inr hs
                   \<and> (\<forall>h\<in>set hs. \<forall>x\<in>set h. 1 / 100 \<le> x \<and> 0 < x)))
       \<and> (\<forall>i<num_bars. snd (bar_bounds num_bars (length fd) i)
                           \<le> fst (bar_bounds num_bars (length fd) i)
              \<longrightarrow> file_bar_heights num_bars fd ! i = 1 / 1000000)
       \<and> (\<forall>i<num_bars. snd (circular_bar_bounds num_bars (length fd) i)
                           \<le> fst (circular_bar_bounds num_bars (length fd) i)
              \<longrightarrow> circular_bar_heights num_bars fd ! i = 1 / 100)"
proof -
  let ?cols = "map (column magnitude) [0..<frame_cnt]"
  let ?hs = "animation_frames num_bars None ?cols"
  have run: "precompute_animation_data num_bars frame_cnt magnitude = Inr ?hs"
    using assms(1) by (simp add: precompute_animation_data_def)
  have "\<forall>h\<in>set ?hs. \<forall>x\<in>set h. 1 / 1000000 \<le> x"
    using file_bar_heights_floor by (intro animation_frames_lower) simp_all
  then have lower: "\<forall>h\<in>set ?hs. \<forall>x\<in>set h. 1 / 1000000 \<le> x \<and> 0 < x"
    by fastforce
  have circ: "\<exists>hs. circular_visualizer_heights sf num_bars stft = Inr hs
                   \<and> (\<forall>h\<in>set hs. \<forall>x\<in>set h. 1 / 100 \<le> x \<and> 0 < x)"
    if h: "concat (log1p_magnitude stft) \<noteq> [] \<and> 0 < np_max (concat (log1p_magnitude stft))"
  proof -
    let ?m = "log1p_magnitude stft"
    let ?norm = "map (map (\<lambda>x. x / np_max (concat ?m))) ?m"
    let ?cs = "circular_frames sf num_bars None (map (column ?norm) [0..<length (hd ?norm)])"
    have "global_normalize ?m = Inr ?norm"
      using h by (intro global_normalize_ok) simp_all
    then have crun: "circular_visualizer_heights sf num_bars stft = Inr ?cs"
      using assms(1) by (simp add: circular_visualizer_heights_def precompute_circular_data_def)
    have "\<forall>h\<in>set ?cs. \<forall>x\<in>set h. 1 / 100 \<le> x"
      using circular_bar_heights_floor assms(2,3) by (intro circular_frames_lower) simp_all
    then have "\<forall>h\<in>set ?cs. \<forall>x\<in>set h. 1 / 100 \<le> x \<and> 0 < x"
      by fastforce
    with crun show ?thesis by blast
  qed
  have empty: "file_bar_heights num_bars fd ! i = 1 / 1000000"
    if "i < num_bars" "snd (bar_bounds num_bars (length fd) i)
                           \<le> fst (bar_bounds num_bars (length fd) i)" for i
    using that by (auto simp: file_bar_heights_def Let_def split: prod.splits)
  have cempty: "circular_bar_heights num_bars fd ! i = 1 / 100"
    if "i < num_bars" "snd (circular_bar_bounds num_bars (length fd) i)
                           \<le> fst (circular_bar_bounds num_bars (length fd) i)" for i
    using that by (auto simp: circular_bar_heights_def Let_def split: prod.splits)
  show ?thesis
    using run lower circ empty cempty by blast
qed

text \<open>
  Claim C5 as stated fails on \<open>FileVisualizer\<close>: a silent frame gives the bar height
  \<open>1e-6\<close>, which is below 0.01.
\<close>

theorem height_floor_counterexample:
  "precompute_animation_data 1 1 [[0]] = Inr [[1 / 1000000]] \<and> \<not> (1 / 100 \<le> (1 / 1000000 :: real))"
  by (simp add: precompute_animation_data_def column_def weights_single file_single_bar)

text \<open>
  Two bars over a single bin in \<open>FileVisualizer\<close>: \<open>bins_per_bar\<close> is 0 and the empty bar
  sits at the floor. One bin with the transform values 0 and 1 in deepseekVisualise.py:
  the normalised frames are 0 and 1, frame 0 stores the floor 0.01 and frame 1 the mean
  of the floor and 1.
\<close>

theorem height_floor_witness:
  "precompute_animation_data 2 1 [[0]] = Inr [[1 / 1000000, 1 / 1000000]]
   \<and> circular_visualizer_heights (1 / 2) 1 [[0, 1]] = Inr [[1 / 100], [101 / 200]]
   \<and> (\<exists>hs. circular_visualizer_heights (1 / 2) 1 [[0, 1]] = Inr hs \<and> 1 / 100 \<le> hs ! 1 ! 0)
   \<and> file_bar_heights 2 [1] ! 0 = 1 / 1000000
   \<and> circular_bar_heights 2 [1] ! 1 = 1 / 100"
proof -
  have h: "1 \<le> (2::nat)" "0 \<le> (1 / 2 :: real)" "(1 / 2 :: real) \<le> 1" by simp_all
  have h1: "1 \<le> (1::nat)" by simp
  have two: "[0..<2] = [0, Suc 0]" by (simp add: upt_rec)
  have a: "precompute_animation_data 2 1 [[0]] = Inr [[1 / 1000000, 1 / 1000000]]"
    by (simp add: precompute_animation_data_def column_def weights_single file_bar_heights_def
        bar_bounds_def rms_def slice_def two)
  have pos: "concat (log1p_magnitude [[0, 1]]) \<noteq> []
               \<and> 0 < np_max (concat (log1p_magnitude [[0, 1]]))"
    by (simp add: log1p_example np_max_example)
  have norm: "global_normalize (log1p_magnitude [[0, 1]]) = Inr [[0, 1]]"
    by (simp add: log1p_example global_normalize_def np_max_example)
  have b: "circular_visualizer_heights (1 / 2) 1 [[0, 1]] = Inr [[1 / 100], [101 / 200]]"
    by (simp add: circular_visualizer_heights_def norm precompute_circular_data_def two
        column_def weights_single circular_single_bar smooth_def)
  from height_floor [OF h1 h(2,3), THEN conjunct2, THEN conjunct1, of "[[0, 1]]"] pos
  obtain hs where hs: "circular_visualizer_heights (1 / 2) 1 [[0, 1]] = Inr hs"
      "\<forall>h\<in>set hs. \<forall>x\<in>set h. 1 / 100 \<le> x \<and> 0 < x"
    by blast
  from hs(1) b have "hs = [[1 / 100], [101 / 200]]" by simp
  with hs have c: "\<exists>hs. circular_visualizer_heights (1 / 2) 1 [[0, 1]] = Inr hs
                      \<and> 1 / 100 \<le> hs ! 1 ! 0"
    by simp
  note w = height_floor [OF h, of 1 "[[0]]" "[[0, 1]]" "[1]"]
  have e1: "snd (bar_bounds 2 (length [1::real]) 0) \<le> fst (bar_bounds 2 (length [1::real]) 0)"
    by (simp add: bar_bounds_def)
  have e2: "snd (circular_bar_bounds 2 (length [1::real]) 1)
              \<le> fst (circular_bar_bounds 2 (length [1::real]) 1)"
    by (simp add: circular_bar_bounds_def)
  from w e1 have d: "file_bar_heights 2 [1] ! 0 = 1 / 1000000" by simp
  from w e2 have e: "circular_bar_heights 2 [1] ! 1 = 1 / 100" by simp
  from a b c d e show ?thesis by blast
qed

text \<open>
  On a transform that is zero everywhere the global normalisation divides 0 by 0, and the
  pipeline of deepseekVisualise.py has no numbers to store.
\<close>

lemma circular_visualizer_silent:
  "circular_visualizer_heights sf num_bars [[0, 0]] = Inl NanResult"
  by (simp add: circular_visualizer_heights_def log1p_magnitude_def global_normalize_def
      np_max_def)

section \<open>Colour animation: the cache lookup is in bounds\<close>

lemma palette_length: "length vibgyor_colors = 7"
  by (simp add: vibgyor_colors_def)

lemma py_fmod_range: "0 < m \<Longrightarrow> 0 \<le> py_fmod x m \<and> py_fmod x m < m"
proof -
  assume m: "0 < m"
  have "of_int \<lfloor>x / m\<rfloor> \<le> x / m" by linarith
  then have lo: "of_int \<lfloor>x / m\<rfloor> * m \<le> x"
    using m by (simp only: pos_le_divide_eq)
  have "x / m < of_int \<lfloor>x / m\<rfloor> + 1" by linarith
  then have hi: "x < (of_int \<lfloor>x / m\<rfloor> + 1) * m"
    using m by (simp only: pos_divide_less_eq)
  from lo hi show ?thesis by (simp add: py_fmod_def algebra_simps)
qed

lemma color_position_nonneg: "0 \<le> color_position num_bars frame i"
proof -
  have "0 \<le> frame_offset frame"
    using py_fmod_range [of 7] by (simp add: frame_offset_def palette_length)
  moreover have "0 \<le> bars_per_color num_bars" by (simp add: bars_per_color_def)
  ultimately show ?thesis by (simp add: color_position_def)
qed

lemma interpolation_factor_range:
  "0 \<le> interpolation_factor num_bars frame i \<and> interpolation_factor num_bars frame i < 1"
proof -
  have "py_int (color_position num_bars frame i) = \<lfloor>color_position num_bars frame i\<rfloor>"
    using color_position_nonneg by (rule py_int_nonneg)
  then show ?thesis
    unfolding interpolation_factor_def by linarith
qed

lemma color_idx_range:
  "0 \<le> color_idx num_bars frame i \<and> color_idx num_bars frame i < 7"
  by (simp add: color_idx_def palette_length)

lemma color_cache_length:
  assumes "0 \<le> c" "c < 7"
  shows "\<exists>cached. color_cache c = Some cached \<and> length cached = steps"
  using assms by (simp add: color_cache_def palette_length Let_def)

lemma step_idx_range:
  assumes "length cached = steps"
  shows "0 \<le> step_idx num_bars frame i cached \<and> step_idx num_bars frame i cached \<le> int steps - 1"
proof -
  let ?t = "interpolation_factor num_bars frame i"
  have t: "0 \<le> ?t" "?t < 1" using interpolation_factor_range by auto
  have v: "0 \<le> ?t * 49" "?t * 49 < 49" using t by simp_all
  then have "py_int (?t * 49) = \<lfloor>?t * 49\<rfloor>" by (simp add: py_int_nonneg)
  moreover have "0 \<le> \<lfloor>?t * 49\<rfloor>" "\<lfloor>?t * 49\<rfloor> < 49" using v by (simp_all add: floor_less_iff)
  ultimately show ?thesis
    using assms by (simp add: step_idx_def steps_def)
qed

lemma py_index_in_range:
  "0 \<le> i \<Longrightarrow> i < int (length xs) \<Longrightarrow> py_index xs i = Inr (xs ! nat i)"
  by (simp add: py_index_def)

lemma bar_color_ok: "\<exists>c. bar_color num_bars frame i = Inr c"
proof -
  obtain cached where c: "color_cache (color_idx num_bars frame i) = Some cached"
      "length cached = steps"
    using color_cache_length color_idx_range by blast
  have "0 \<le> step_idx num_bars frame i cached"
       "step_idx num_bars frame i cached < int (length cached)"
    using step_idx_range [OF c(2), of num_bars frame i] c(2) by (simp_all add: steps_def)
  then show ?thesis
    using c(1) by (simp add: bar_color_def py_index_in_range)
qed

lemma collect_all_ok:
  "\<forall>r\<in>set rs. \<exists>v. r = Inr v \<Longrightarrow> \<exists>vs. collect rs = Inr vs \<and> length vs = length rs"
proof (induction rs)
  case Nil
  show ?case by simp
next
  case (Cons r rs)
  then obtain v vs where "r = Inr v" "collect rs = Inr vs" "length vs = length rs"
    by auto
  then show ?case by simp
qed

text \<open>
  Claim C10. For every frame \<open>f \<ge> 0\<close> and every bar \<open>i < num_bars\<close>: the fractional
  part of the colour position lies in \<open>[0, 1)\<close>; the palette index is a key of the cache,
  whose list has \<open>steps\<close> entries; the step index \<open>int(fraction * (steps - 1))\<close> lies in
  \<open>[0, steps - 1]\<close>, so the lookup is in bounds and returns that entry; and
  \<open>get_vibgyor_colors\<close> returns exactly \<open>num_bars\<close> colours.
\<close>

theorem cache_lookup_safe:
  assumes "0 \<le> frame"
  shows "(\<forall>i<num_bars.
            0 \<le> interpolation_factor num_bars frame i
          \<and> interpolation_factor num_bars frame i < 1
          \<and> (\<exists>cached. color_cache (color_idx num_bars frame i) = Some cached
                \<and> length cached = steps
                \<and> 0 \<le> step_idx num_bars frame i cached
                \<and> step_idx num_bars frame i cached \<le> int steps - 1
                \<and> bar_color num_bars frame i
                    = Inr (cached ! nat (step_idx num_bars frame i cached))))
       \<and> (\<exists>colors. get_vibgyor_colors num_bars frame = Inr colors \<and> length colors = num_bars)"
proof -
  have bar: "0 \<le> interpolation_factor num_bars frame i
          \<and> interpolation_factor num_bars frame i < 1
          \<and> (\<exists>cached. color_cache (color_idx num_bars frame i) = Some cached
                \<and> length cached = steps
                \<and> 0 \<le> step_idx num_bars frame i cached
                \<and> step_idx num_bars frame i cached \<le> int steps - 1
                \<and> bar_color num_bars frame i
                    = Inr (cached ! nat (step_idx num_bars frame i cached)))" for i
  proof -
    obtain cached where c: "color_cache (color_idx num_bars frame i) = Some cached"
        "length cached = steps"
      using color_cache_length color_idx_range by blast
    have s: "0 \<le> step_idx num_bars frame i cached"
        "step_idx num_bars frame i cached \<le> int steps - 1"
      using step_idx_range [OF c(2)] by auto
    then have "step_idx num_bars frame i cached < int (length cached)"
      using c(2) by simp
    then have "bar_color num_bars frame i = Inr (cached ! nat (step_idx num_bars frame i cached))"
      using c(1) s(1) by (simp add: bar_color_def py_index_in_range)
    then show ?thesis
      using interpolation_factor_range c s by blast
  qed
  have "\<exists>vs. collect (map (bar_color num_bars frame) [0..<num_bars]) = Inr vs
          \<and> length vs = length (map (bar_color num_bars frame) [0..<num_bars])"
    using bar_color_ok by (intro collect_all_ok) auto
  then have "\<exists>colors. get_vibgyor_colors num_bars frame = Inr colors \<and> length colors = num_bars"
    by (simp add: get_vibgyor_colors_def)
  then show ?thesis using bar by blast
qed

text \<open>
  Three bars at frame 1000, where the palette has turned by two colours.
\<close>

theorem cache_lookup_safe_witness:
  "(\<exists>colors. get_vibgyor_colors 3 1000 = Inr colors \<and> length colors = 3)
   \<and> 0 \<le> interpolation_factor 3 1000 1 \<and> interpolation_factor 3 1000 1 < 1
   \<and> (\<exists>cached. color_cache (color_idx 3 1000 1) = Some cached
         \<and> 0 \<le> step_idx 3 1000 1 cached \<and> step_idx 3 1000 1 cached \<le> 49
         \<and> bar_color 3 1000 1 = Inr (cached ! nat (step_idx 3 1000 1 cached)))"
proof -
  have h: "(0::int) \<le> 1000" by simp
  note w = cache_lookup_safe [OF h, of 3]
  from w [THEN conjunct2] have a: "\<exists>colors. get_vibgyor_colors 3 1000 = Inr colors \<and> length colors = 3" .
  have b: "0 \<le> interpolation_factor 3 1000 1
          \<and> interpolation_factor 3 1000 1 < 1
          \<and> (\<exists>cached. color_cache (color_idx 3 1000 1) = Some cached
                \<and> length cached = steps
                \<and> 0 \<le> step_idx 3 1000 1 cached
                \<and> step_idx 3 1000 1 cached \<le> int steps - 1
                \<and> bar_color 3 1000 1 = Inr (cached ! nat (step_idx 3 1000 1 cached)))"
    by (rule w [THEN conjunct1, rule_format]) simp
  then obtain cached where c: "color_cache (color_idx 3 1000 1) = Some cached"
      "0 \<le> step_idx 3 1000 1 cached" "step_idx 3 1000 1 cached \<le> int steps - 1"
      "bar_color 3 1000 1 = Inr (cached ! nat (step_idx 3 1000 1 cached))"
    by (elim exE conjE)
  from c(3) have "step_idx 3 1000 1 cached \<le> 49" by (simp add: steps_def)
  with a b c show ?thesis by blast
qed

end
